theory Spec2Isabelle
  imports Complex_Main "HOL-Library.Multiset" "HOL-Library.Sublist"
begin

section \<open>The menu generator (src/menu_genrater/src/App.tsx)\<close>

text \<open>
  A shallow embedding of the pure parts of \<^verbatim>\<open>App.tsx\<close>. Conventions:
  \<^item> a JavaScript string is a \<^typ>\<open>string\<close>; text outside ASCII is written as its UTF-8
    bytes. The program only ever inspects ASCII characters of a string (the digits, and
    the separators of an ISO timestamp), and no byte of a multi-byte UTF-8 sequence is an
    ASCII character, so the byte view and the UTF-16 view agree on every function below;
  \<^item> React state is passed explicitly: a state updater \<^verbatim>\<open>setX((prev) => e)\<close> is the
    function \<open>prev \<mapsto> e\<close>;
  \<^item> a JavaScript number is a value of the type \<open>number\<close> below: a finite value, as
    the real number it stands for, \<^verbatim>\<open>NaN\<close> or an infinity. The arithmetic on prices
    rounds to the nearest double. The sums and quotients of pixel lengths in the two
    layout routines are taken exactly.
\<close>

subsection \<open>Constants\<close>

text \<open>The literal \<^verbatim>\<open>0.1\<close> is the double nearest to one tenth.\<close>

definition TAX_RATE :: real where
  "TAX_RATE = 3602879701896397 / 2 ^ 55"

text \<open>The double that \<^verbatim>\<open>1 + TAX_RATE\<close> evaluates to: the one nearest to 1.1.\<close>

definition taxMultiplier :: real where
  "taxMultiplier = 4953959590107546 / 2 ^ 52"

definition PAGE_WIDTH :: real where
  "PAGE_WIDTH = 794"

definition PAGE_HEIGHT :: real where
  "PAGE_HEIGHT = 1123"

definition DEFAULT_SHADOW_COLOR :: string where
  "DEFAULT_SHADOW_COLOR = ''#57e8ff''"

definition MAX_COLOR_HISTORY :: nat where
  "MAX_COLOR_HISTORY = 8"

subsection \<open>The colour history\<close>

text \<open>
  \<^verbatim>\<open>setColorHistory((prev) => {
    const filtered = prev.filter((color) => color !== nextColor)
    return [nextColor, ...filtered].slice(0, MAX_COLOR_HISTORY) })\<close>
\<close>

definition commitColorToHistory :: "string \<Rightarrow> string list \<Rightarrow> string list" where
  "commitColorToHistory nextColor prev =
     (let filtered = filter (\<lambda>color. color \<noteq> nextColor) prev
      in take MAX_COLOR_HISTORY (nextColor # filtered))"

text \<open>A sequence of commits, the first colour of the list committed first.\<close>

definition commitAll :: "string list \<Rightarrow> string list \<Rightarrow> string list" where
  "commitAll prev colors = foldl (\<lambda>history color. commitColorToHistory color history) prev colors"

subsection \<open>The durable store and the startup load\<close>

text \<open>
  The value \<^verbatim>\<open>JSON.parse\<close> returns. The parser itself belongs to the platform and is
  not modelled: the store is described by what reading and parsing it yields.
\<close>

datatype json =
    JNull
  | JBool bool
  | JNumber real
  | JString string
  | JArray "json list"
  | JObject "(string \<times> json) list"

datatype durable_store =
    GetItemThrows  \<comment> \<open>\<^verbatim>\<open>window.localStorage.getItem\<close> throws (storage is blocked)\<close>
  | KeyAbsent      \<comment> \<open>\<^verbatim>\<open>getItem\<close> returns \<^verbatim>\<open>null\<close>\<close>
  | EmptyText      \<comment> \<open>the stored text is the empty string\<close>
  | Unparseable    \<comment> \<open>a non-empty text on which \<^verbatim>\<open>JSON.parse\<close> throws\<close>
  | Parses json    \<comment> \<open>a non-empty text that \<^verbatim>\<open>JSON.parse\<close> reads as this value\<close>

datatype load_error = StorageError | SyntaxError

text \<open>\<^verbatim>\<open>parsed.filter((color) => typeof color === 'string')\<close>\<close>

fun filterStrings :: "json list \<Rightarrow> string list" where
  "filterStrings [] = []"
| "filterStrings (JString color # rest) = color # filterStrings rest"
| "filterStrings (_ # rest) = filterStrings rest"

text \<open>The body of the \<^verbatim>\<open>try\<close> block: \<open>Inl\<close> is an exception on its way to \<^verbatim>\<open>catch\<close>.\<close>

definition loadColorHistory_try :: "durable_store \<Rightarrow> load_error + string list" where
  "loadColorHistory_try stored =
     (case stored of
        GetItemThrows \<Rightarrow> Inl StorageError
      | KeyAbsent \<Rightarrow> Inr [DEFAULT_SHADOW_COLOR]
      | EmptyText \<Rightarrow> Inr [DEFAULT_SHADOW_COLOR]
      | Unparseable \<Rightarrow> Inl SyntaxError
      | Parses parsed \<Rightarrow>
          (case parsed of
             JArray elements \<Rightarrow>
               if length elements \<noteq> 0 then Inr (filterStrings elements)
               else Inr [DEFAULT_SHADOW_COLOR]
           | _ \<Rightarrow> Inr [DEFAULT_SHADOW_COLOR]))"

text \<open>
  The argument is \<open>None\<close> where \<^verbatim>\<open>typeof window === 'undefined'\<close>. The \<^verbatim>\<open>catch\<close>
  block logs a warning and returns the default.
\<close>

definition loadColorHistory :: "durable_store option \<Rightarrow> string list" where
  "loadColorHistory window =
     (case window of
        None \<Rightarrow> [DEFAULT_SHADOW_COLOR]
      | Some stored \<Rightarrow>
          (case loadColorHistory_try stored of
             Inl error \<Rightarrow> [DEFAULT_SHADOW_COLOR]
           | Inr history \<Rightarrow> history))"

text \<open>
  \<^verbatim>\<open>window.localStorage.setItem(COLOR_HISTORY_KEY, JSON.stringify(colorHistory))\<close>: the
  text written is not empty and parses back to the array of the same strings.
\<close>

definition persistColorHistory :: "string list \<Rightarrow> durable_store" where
  "persistColorHistory colorHistory = Parses (JArray (map JString colorHistory))"

subsection \<open>Numbers with \<^verbatim>\<open>NaN\<close> and the infinities\<close>

text \<open>
  The values of a JavaScript number: a finite value, \<^verbatim>\<open>NaN\<close>, or an infinity. The
  sign of a zero is not kept: none of the operations below tells the two zeros apart.
  The operations of this subsection do not round: they are the ones applied to pixel
  lengths.
\<close>

datatype number = NaN | NegInf | Fin real | PosInf

fun js_neg :: "number \<Rightarrow> number" where
  "js_neg NaN = NaN"
| "js_neg NegInf = PosInf"
| "js_neg (Fin a) = Fin (- a)"
| "js_neg PosInf = NegInf"

fun js_add :: "number \<Rightarrow> number \<Rightarrow> number" where
  "js_add NaN _ = NaN"
| "js_add _ NaN = NaN"
| "js_add (Fin a) (Fin b) = Fin (a + b)"
| "js_add PosInf NegInf = NaN"
| "js_add NegInf PosInf = NaN"
| "js_add PosInf _ = PosInf"
| "js_add _ PosInf = PosInf"
| "js_add NegInf _ = NegInf"
| "js_add _ NegInf = NegInf"

definition js_sub :: "number \<Rightarrow> number \<Rightarrow> number" where
  "js_sub a b = js_add a (js_neg b)"

text \<open>\<^verbatim>\<open>a <= b\<close> and \<^verbatim>\<open>a < b\<close>: false as soon as one side is \<^verbatim>\<open>NaN\<close>.\<close>

fun js_le :: "number \<Rightarrow> number \<Rightarrow> bool" where
  "js_le NaN _ = False"
| "js_le _ NaN = False"
| "js_le NegInf _ = True"
| "js_le _ PosInf = True"
| "js_le (Fin a) (Fin b) = (a \<le> b)"
| "js_le _ _ = False"

fun js_lt :: "number \<Rightarrow> number \<Rightarrow> bool" where
  "js_lt NaN _ = False"
| "js_lt _ NaN = False"
| "js_lt (Fin a) (Fin b) = (a < b)"
| "js_lt PosInf _ = False"
| "js_lt _ NegInf = False"
| "js_lt _ _ = True"

text \<open>\<^verbatim>\<open>Math.max(a, b)\<close> and \<^verbatim>\<open>Math.min(a, b, c)\<close>: \<^verbatim>\<open>NaN\<close> if an argument is.\<close>

definition Math_max :: "number \<Rightarrow> number \<Rightarrow> number" where
  "Math_max a b = (if a = NaN \<or> b = NaN then NaN else if js_le a b then b else a)"

definition Math_min :: "number \<Rightarrow> number \<Rightarrow> number" where
  "Math_min a b = (if a = NaN \<or> b = NaN then NaN else if js_le a b then a else b)"

definition Math_min3 :: "number \<Rightarrow> number \<Rightarrow> number \<Rightarrow> number" where
  "Math_min3 a b c = Math_min a (Math_min b c)"

text \<open>\<^verbatim>\<open>x / c\<close> for a finite constant \<open>c > 0\<close>, which both page dimensions are.\<close>

definition js_div_const :: "number \<Rightarrow> real \<Rightarrow> number" where
  "js_div_const x c = (case x of NaN \<Rightarrow> NaN | NegInf \<Rightarrow> NegInf | Fin a \<Rightarrow> Fin (a / c) | PosInf \<Rightarrow> PosInf)"

definition Number_isFinite :: "number \<Rightarrow> bool" where
  "Number_isFinite x = (case x of Fin _ \<Rightarrow> True | _ \<Rightarrow> False)"

text \<open>The numbers that count as false in a condition: zero and \<^verbatim>\<open>NaN\<close>.\<close>

definition falsy :: "number \<Rightarrow> bool" where
  "falsy x = (x = NaN \<or> x = Fin 0)"

subsection \<open>IEEE-754 doubles\<close>

text \<open>
  The arithmetic on prices rounds as the binary64 format does: to the nearest value with
  a significand of 53 bits, a tie going to the even one, and to an infinity from
  \<open>2 ^ 1024\<close> on. A finite double is the real number it stands for.
\<close>

text \<open>The number of binary digits of a natural number.\<close>

fun bitlength :: "nat \<Rightarrow> nat" where
  "bitlength n = (if n = 0 then 0 else Suc (bitlength (n div 2)))"

declare bitlength.simps [simp del]

text \<open>Two to an integer power.\<close>

definition pow2 :: "int \<Rightarrow> real" where
  "pow2 k = (if 0 \<le> k then 2 ^ nat k else 1 / 2 ^ nat (- k))"

text \<open>The exponent \<open>e\<close> of a positive real \<open>x\<close>: \<open>2 ^ e \<le> x < 2 ^ (e + 1)\<close>.\<close>

definition binaryExponent :: "real \<Rightarrow> int" where
  "binaryExponent x =
     (if 1 \<le> x then int (bitlength (nat \<lfloor>x\<rfloor>)) - 1
      else - int (bitlength (nat (\<lceil>1 / x\<rceil> - 1))))"

definition roundTiesToEven :: "real \<Rightarrow> int" where
  "roundTiesToEven x =
     (let f = \<lfloor>x\<rfloor>; d = x - real_of_int f
      in if d < 1 / 2 then f else if 1 / 2 < d then f + 1 else if even f then f else f + 1)"

text \<open>
  The double nearest to a real number. The unit in the last place is
  \<open>2 ^ (e - 52)\<close>, with the exponent no lower than that of the subnormal numbers.
\<close>

definition toDouble :: "real \<Rightarrow> number" where
  "toDouble x =
     (if x = 0 then Fin 0
      else
        (let e = max (binaryExponent \<bar>x\<bar>) (- 1022);
             ulp = pow2 (e - 52);
             r = real_of_int (roundTiesToEven (\<bar>x\<bar> / ulp)) * ulp
         in if 2 ^ 1024 \<le> r then (if 0 < x then PosInf else NegInf)
            else Fin (if 0 < x then r else - r)))"

text \<open>\<^verbatim>\<open>a + b\<close> and \<^verbatim>\<open>a * b\<close> on doubles: the exact result, rounded.\<close>

fun fl_add :: "number \<Rightarrow> number \<Rightarrow> number" where
  "fl_add (Fin a) (Fin b) = toDouble (a + b)"
| "fl_add a b = js_add a b"

fun fl_mul :: "number \<Rightarrow> number \<Rightarrow> number" where
  "fl_mul NaN _ = NaN"
| "fl_mul _ NaN = NaN"
| "fl_mul (Fin a) (Fin b) = toDouble (a * b)"
| "fl_mul (Fin a) PosInf = (if a = 0 then NaN else if 0 < a then PosInf else NegInf)"
| "fl_mul (Fin a) NegInf = (if a = 0 then NaN else if 0 < a then NegInf else PosInf)"
| "fl_mul PosInf (Fin b) = (if b = 0 then NaN else if 0 < b then PosInf else NegInf)"
| "fl_mul NegInf (Fin b) = (if b = 0 then NaN else if 0 < b then NegInf else PosInf)"
| "fl_mul PosInf PosInf = PosInf"
| "fl_mul NegInf NegInf = PosInf"
| "fl_mul PosInf NegInf = NegInf"
| "fl_mul NegInf PosInf = NegInf"

subsection \<open>Digits, prices and tax\<close>

text \<open>
  \<^verbatim>\<open>value.replace(/[class]/g, replacement)\<close> for a regular expression that is one
  character class: every character the class matches is replaced, the others stay.
\<close>

definition replaceAll_class :: "(char \<Rightarrow> bool) \<Rightarrow> string \<Rightarrow> string \<Rightarrow> string" where
  "replaceAll_class matches replacement value =
     concat (map (\<lambda>c. if matches c then replacement else [c]) value)"

text \<open>The class \<^verbatim>\<open>\d\<close> (without the unicode flag): the ten ASCII digits.\<close>

definition isDigit :: "char \<Rightarrow> bool" where
  "isDigit c = (c \<in> set ''0123456789'')"

text \<open>\<^verbatim>\<open>const sanitizeDigits = (value: string) => value.replace(/[^\d]/g, '')\<close>\<close>

definition sanitizeDigits :: "string \<Rightarrow> string" where
  "sanitizeDigits value = replaceAll_class (\<lambda>c. \<not> isDigit c) [] value"

definition digit_value :: "char \<Rightarrow> nat" where
  "digit_value c = of_char c - 48"

text \<open>The mathematical value of a decimal literal, read digit by digit from the left.\<close>

definition digits_value :: "string \<Rightarrow> nat" where
  "digits_value s = foldl (\<lambda>n c. 10 * n + digit_value c) 0 s"

text \<open>
  \<^verbatim>\<open>Number(s)\<close> for a string \<open>s\<close> of decimal digits, the empty string included
  (\<^verbatim>\<open>Number('')\<close> is 0): the only strings \<open>computedItems\<close> passes to it. Leading zeros
  do not count. The result is the double nearest to the value of the literal, as the
  engines compute it.
\<close>

definition Number_of_digits :: "string \<Rightarrow> number" where
  "Number_of_digits s = toDouble (real (digits_value s))"

text \<open>The natural number a digit string denotes, position by position.\<close>

definition decimal_value :: "string \<Rightarrow> nat" where
  "decimal_value s = (\<Sum>i<length s. digit_value (s ! i) * 10 ^ (length s - 1 - i))"

text \<open>\<^verbatim>\<open>Math.round\<close>: the nearest integer, a tie going up.\<close>

fun Math_round :: "number \<Rightarrow> number" where
  "Math_round (Fin x) = Fin (real_of_int \<lfloor>x + 1 / 2\<rfloor>)"
| "Math_round x = x"

text \<open>
  \<^verbatim>\<open>const getTaxIncluded = (value: number) =>
    value > 0 ? Math.round(value * (1 + TAX_RATE)) : 0\<close>
\<close>

definition getTaxIncluded :: "number \<Rightarrow> number" where
  "getTaxIncluded value =
     (if js_lt (Fin 0) value then Math_round (fl_mul value (fl_add (Fin 1) (Fin TAX_RATE)))
      else Fin 0)"

subsection \<open>Menu items\<close>

record MenuItem =
  item_id :: string
  name :: string
  price :: string

record ComputedMenuItem = MenuItem +
  priceValue :: number
  taxIncluded :: number

text \<open>The two names are \<^verbatim>\<open>U+30E1 U+30CB U+30E5 U+30FC\<close> and a full-width 1 or 2, in UTF-8.\<close>

definition initialItems :: "MenuItem list" where
  "initialItems =
     [\<lparr>item_id = ''item-1'',
       name = [CHR 0xE3, CHR 0x83, CHR 0xA1, CHR 0xE3, CHR 0x83, CHR 0x8B, CHR 0xE3, CHR 0x83,
               CHR 0xA5, CHR 0xE3, CHR 0x83, CHR 0xBC, CHR 0xEF, CHR 0xBC, CHR 0x91],
       price = ''980''\<rparr>,
      \<lparr>item_id = ''item-2'',
       name = [CHR 0xE3, CHR 0x83, CHR 0xA1, CHR 0xE3, CHR 0x83, CHR 0x8B, CHR 0xE3, CHR 0x83,
               CHR 0xA5, CHR 0xE3, CHR 0x83, CHR 0xBC, CHR 0xEF, CHR 0xBC, CHR 0x92],
       price = ''888''\<rparr>]"

text \<open>
  \<^verbatim>\<open>const priceValue = Number(sanitizeDigits(item.price)) || 0
  return { ...item, priceValue, taxIncluded: getTaxIncluded(priceValue) }\<close>
\<close>

definition computeItem :: "MenuItem \<Rightarrow> ComputedMenuItem" where
  "computeItem item =
     (let parsed = Number_of_digits (sanitizeDigits (price item));
          priceValue = (if falsy parsed then Fin 0 else parsed)
      in \<lparr>item_id = item_id item, name = name item, price = price item,
          priceValue = priceValue, taxIncluded = getTaxIncluded priceValue\<rparr>)"

definition computedItems :: "MenuItem list \<Rightarrow> ComputedMenuItem list" where
  "computedItems items = map computeItem items"

text \<open>
  \<^verbatim>\<open>setItems((prev) =>
    prev.map((item) => (item.id === id ? { ...item, name: value } : item)))\<close>
\<close>

definition handleNameChange :: "string \<Rightarrow> string \<Rightarrow> MenuItem list \<Rightarrow> MenuItem list" where
  "handleNameChange id' value prev =
     map (\<lambda>item. if item_id item = id' then item\<lparr>name := value\<rparr> else item) prev"

definition handlePriceChange :: "string \<Rightarrow> string \<Rightarrow> MenuItem list \<Rightarrow> MenuItem list" where
  "handlePriceChange id' value prev =
     (let digitsOnly = sanitizeDigits value
      in map (\<lambda>item. if item_id item = id' then item\<lparr>price := digitsOnly\<rparr> else item) prev)"

text \<open>The change events of the form: the item's id and the text of the input field.\<close>

datatype form_event = NameChange string string | PriceChange string string

fun handleEvent :: "MenuItem list \<Rightarrow> form_event \<Rightarrow> MenuItem list" where
  "handleEvent items (NameChange id' value) = handleNameChange id' value items"
| "handleEvent items (PriceChange id' value) = handlePriceChange id' value items"

definition itemsAfter :: "form_event list \<Rightarrow> MenuItem list" where
  "itemsAfter events = foldl handleEvent initialItems events"

text \<open>Every stored price is made of decimal digits only.\<close>

definition digitsOnlyPrices :: "MenuItem list \<Rightarrow> bool" where
  "digitsOnlyPrices items = list_all (\<lambda>item. list_all isDigit (price item)) items"

subsection \<open>The auto-fit text sizer\<close>

text \<open>
  What \<open>fit\<close> reads from the page: the parent's \<^verbatim>\<open>clientHeight\<close>, its two paddings
  as \<^verbatim>\<open>parseFloat\<close> returns them, and the layout, that is the node's
  \<^verbatim>\<open>scrollHeight\<close> once its font size is the given number of pixels.
\<close>

record text_box =
  clientHeight :: int
  paddingTop :: number
  paddingBottom :: number
  scrollHeight :: "int \<Rightarrow> int"

text \<open>
  \<^verbatim>\<open>while (low <= high) {
    const mid = Math.floor((low + high) / 2)
    node.style.fontSize = `${mid}px`
    if (node.scrollHeight <= availableHeight) { best = mid; low = mid + 1 }
    else { high = mid - 1 } }\<close>
  The result is \<open>best\<close> when the loop ends.
\<close>

function fit_loop :: "(int \<Rightarrow> int) \<Rightarrow> number \<Rightarrow> int \<Rightarrow> int \<Rightarrow> int \<Rightarrow> int" where
  "fit_loop heightAt availableHeight low high best =
     (if low \<le> high then
        (let mid = (low + high) div 2
         in if js_le (Fin (real_of_int (heightAt mid))) availableHeight
            then fit_loop heightAt availableHeight (mid + 1) high mid
            else fit_loop heightAt availableHeight low (mid - 1) best)
      else best)"
  by pat_completeness auto
termination
  by (relation "measure (\<lambda>(heightAt, availableHeight, low, high, best). nat (high - low + 1))")
    auto

declare fit_loop.simps [simp del]

text \<open>
  \<^verbatim>\<open>const availableHeight = parent.clientHeight - (paddingTop + paddingBottom)\<close>
\<close>

definition availableHeightOf :: "text_box \<Rightarrow> number" where
  "availableHeightOf parent =
     js_sub (Fin (real_of_int (clientHeight parent)))
            (js_add (paddingTop parent) (paddingBottom parent))"

text \<open>The text fits at a font size: its height there is at most the available height.\<close>

definition fitsAt :: "text_box \<Rightarrow> int \<Rightarrow> bool" where
  "fitsAt parent px = js_le (Fin (real_of_int (scrollHeight parent px))) (availableHeightOf parent)"

text \<open>
  The inline font size of the node after \<open>fit\<close>, given the one before (\<open>None\<close>: none
  set). The box is \<open>None\<close> when the node or its parent is missing. Every early
  \<^verbatim>\<open>return\<close> leaves the font size as it was.
\<close>

definition fit :: "int \<Rightarrow> int \<Rightarrow> text_box option \<Rightarrow> int option \<Rightarrow> int option" where
  "fit min_size max_size box fontSize =
     (case box of
        None \<Rightarrow> fontSize
      | Some parent \<Rightarrow>
          (let availableHeight = availableHeightOf parent
           in if falsy availableHeight \<or> js_le availableHeight (Fin 0) then fontSize
              else Some (fit_loop (scrollHeight parent) availableHeight min_size max_size min_size)))"

subsection \<open>The page scale fitter\<close>

record stage_box =
  stage_clientWidth :: int
  stage_clientHeight :: int
  stage_paddingLeft :: number
  stage_paddingRight :: number
  stage_paddingTop :: number
  stage_paddingBottom :: number

text \<open>
  The second half of \<open>updateScale\<close>, from the two available lengths to the value given
  to \<^verbatim>\<open>setPageScale\<close>:
  \<^verbatim>\<open>const widthRatio = availableWidth / PAGE_WIDTH
  const heightRatio = availableHeight / PAGE_HEIGHT
  const nextScale = Math.min(1, widthRatio, heightRatio)
  if (Number.isFinite(nextScale) && nextScale > 0) setPageScale(nextScale)
  else setPageScale(1)\<close>
\<close>

definition scaleFor :: "number \<Rightarrow> number \<Rightarrow> number" where
  "scaleFor availableWidth availableHeight =
     (let widthRatio = js_div_const availableWidth PAGE_WIDTH;
          heightRatio = js_div_const availableHeight PAGE_HEIGHT;
          nextScale = Math_min3 (Fin 1) widthRatio heightRatio
      in if Number_isFinite nextScale \<and> js_lt (Fin 0) nextScale then nextScale else Fin 1)"

text \<open>
  The page scale after \<open>updateScale\<close>, given the one before. The stage is \<open>None\<close> when
  the stage or the page element is missing: the scale stays.
\<close>

definition updateScale :: "stage_box option \<Rightarrow> number \<Rightarrow> number" where
  "updateScale stage pageScale =
     (case stage of
        None \<Rightarrow> pageScale
      | Some styles \<Rightarrow>
          (let paddingX = js_add (stage_paddingLeft styles) (stage_paddingRight styles);
               paddingY = js_add (stage_paddingTop styles) (stage_paddingBottom styles);
               availableWidth =
                 Math_max (Fin 0) (js_sub (Fin (real_of_int (stage_clientWidth styles))) paddingX);
               availableHeight =
                 Math_max (Fin 0) (js_sub (Fin (real_of_int (stage_clientHeight styles))) paddingY)
           in scaleFor availableWidth availableHeight))"

text \<open>The page scale after a run of updates, from the initial \<^verbatim>\<open>useState(1)\<close>.\<close>

definition pageScaleAfter :: "stage_box option list \<Rightarrow> number" where
  "pageScaleAfter updates = foldl (\<lambda>pageScale stage. updateScale stage pageScale) (Fin 1) updates"

subsection \<open>The export file name\<close>

text \<open>The UTC fields of an instant, as \<^verbatim>\<open>new Date()\<close> holds them.\<close>

record utc_instant =
  year :: int
  month :: nat
  day :: nat
  hours :: nat
  minutes :: nat
  seconds :: nat
  milliseconds :: nat

definition digit_char :: "nat \<Rightarrow> char" where
  "digit_char d = char_of (48 + d)"

text \<open>The last \<open>k\<close> decimal digits of \<open>n\<close>, with leading zeros.\<close>

fun pad_digits :: "nat \<Rightarrow> nat \<Rightarrow> string" where
  "pad_digits 0 n = []"
| "pad_digits (Suc k) n = pad_digits k (n div 10) @ [digit_char (n mod 10)]"

text \<open>
  \<^verbatim>\<open>Date.prototype.toISOString\<close>: \<^verbatim>\<open>YYYY-MM-DDTHH:mm:ss.sssZ\<close>, and a sign with six
  digits for a year outside 0 to 9999.
\<close>

definition toISOString :: "utc_instant \<Rightarrow> string" where
  "toISOString t =
     (if 0 \<le> year t \<and> year t \<le> 9999 then pad_digits 4 (nat (year t))
      else (if year t < 0 then ''-'' else ''+'') @ pad_digits 6 (nat \<bar>year t\<bar>))
     @ ''-'' @ pad_digits 2 (month t) @ ''-'' @ pad_digits 2 (day t)
     @ ''T'' @ pad_digits 2 (hours t) @ '':'' @ pad_digits 2 (minutes t)
     @ '':'' @ pad_digits 2 (seconds t) @ ''.'' @ pad_digits 3 (milliseconds t) @ ''Z''"

text \<open>The class \<^verbatim>\<open>[-:T]\<close>.\<close>

definition isSeparator :: "char \<Rightarrow> bool" where
  "isSeparator c = (c \<in> set ''-:T'')"

text \<open>\<^verbatim>\<open>new Date().toISOString().replace(/[-:T]/g, "").slice(0, 12)\<close>\<close>

definition timestamp :: "utc_instant \<Rightarrow> string" where
  "timestamp now = take 12 (replaceAll_class isSeparator [] (toISOString now))"

text \<open>\<^verbatim>\<open>link.download = `menu_${timestamp}.png`\<close>\<close>

definition downloadName :: "utc_instant \<Rightarrow> string" where
  "downloadName now = ''menu_'' @ timestamp now @ ''.png''"

subsection \<open>The export adapter\<close>

text \<open>
  The inline style of an element is its list of declarations, property and value. Reading
  \<^verbatim>\<open>style.cssText\<close> gives the whole list and assigning to it replaces the whole list.
  Assigning to one property changes its declaration, or adds one at the end.
\<close>

type_synonym css_style = "(string \<times> string) list"

fun setProperty :: "string \<Rightarrow> string \<Rightarrow> css_style \<Rightarrow> css_style" where
  "setProperty property v [] = [(property, v)]"
| "setProperty property v ((p, w) # rest) =
     (if p = property then (p, v) # rest else (p, w) # setProperty property v rest)"

text \<open>
  What \<open>handleDownload\<close> touches: the inline style of the page element (\<open>None\<close> when
  \<^verbatim>\<open>previewRef.current\<close> is null), the console, the alerts shown, and the links
  created and clicked, each with its \<^verbatim>\<open>download\<close> name and its \<^verbatim>\<open>href\<close>.
\<close>

record export_state =
  previewStyle :: "css_style option"
  consoleErrors :: "string list"
  alerts :: "string list"
  clickedLinks :: "(string \<times> string) list"

text \<open>How the promise of \<^verbatim>\<open>domToPng\<close> settles: rejected with an error, or a data URL.\<close>

datatype capture = Rejected string | Resolved string

text \<open>The alert of the \<^verbatim>\<open>catch\<close> block, in UTF-8.\<close>

definition exportFailedMessage :: string where
  "exportFailedMessage =
     [CHR 0x50, CHR 0x4E, CHR 0x47, CHR 0xE3, CHR 0x81, CHR 0xAE, CHR 0xE6, CHR 0x9B, CHR 0xB8,
      CHR 0xE3, CHR 0x81, CHR 0x8D, CHR 0xE5, CHR 0x87, CHR 0xBA, CHR 0xE3, CHR 0x81, CHR 0x97,
      CHR 0xE3, CHR 0x81, CHR 0xAB, CHR 0xE5, CHR 0xA4, CHR 0xB1, CHR 0xE6, CHR 0x95, CHR 0x97,
      CHR 0xE3, CHR 0x81, CHR 0x97, CHR 0xE3, CHR 0x81, CHR 0xBE, CHR 0xE3, CHR 0x81, CHR 0x97,
      CHR 0xE3, CHR 0x81, CHR 0x9F, CHR 0xE3, CHR 0x80, CHR 0x82]"

text \<open>The nine assignments before the capture, in the order of the source.\<close>

definition captureStyle :: "css_style \<Rightarrow> css_style" where
  "captureStyle style =
     (let s1 = setProperty ''transition'' ''none'' style;
          s2 = setProperty ''transform'' ''none'' s1;
          s3 = setProperty ''position'' ''fixed'' s2;
          s4 = setProperty ''top'' ''0'' s3;
          s5 = setProperty ''left'' ''0'' s4;
          s6 = setProperty ''width'' ''794px'' s5;
          s7 = setProperty ''height'' ''1123px'' s6;
          s8 = setProperty ''z-index'' ''9999'' s7
      in setProperty ''background-color'' ''#ffffff'' s8)"

text \<open>
  The \<^verbatim>\<open>try\<close> block: the state it leaves, and the error if it throws. The capture is
  the one step that can throw; the link is made after it.
\<close>

definition handleDownload_try ::
    "capture \<Rightarrow> utc_instant \<Rightarrow> css_style \<Rightarrow> export_state \<Rightarrow> string option \<times> export_state" where
  "handleDownload_try captured now style state =
     (let styled = state\<lparr>previewStyle := Some (captureStyle style)\<rparr>
      in case captured of
           Rejected error \<Rightarrow> (Some error, styled)
         | Resolved dataUrl \<Rightarrow>
             (None, styled\<lparr>clickedLinks := clickedLinks styled @ [(downloadName now, dataUrl)]\<rparr>))"

text \<open>
  \<open>handleDownload\<close>: return at once without a node; else keep \<open>originalStyle\<close>, run the
  \<^verbatim>\<open>try\<close> block, on an error log it and alert, and in \<^verbatim>\<open>finally\<close> assign
  \<open>originalStyle\<close> back to \<^verbatim>\<open>cssText\<close>.
\<close>

definition handleDownload :: "capture \<Rightarrow> utc_instant \<Rightarrow> export_state \<Rightarrow> export_state" where
  "handleDownload captured now state =
     (case previewStyle state of
        None \<Rightarrow> state
      | Some originalStyle \<Rightarrow>
          (let (thrown, tried) = handleDownload_try captured now originalStyle state;
               caught =
                 (case thrown of
                    None \<Rightarrow> tried
                  | Some error \<Rightarrow>
                      tried\<lparr>consoleErrors := consoleErrors tried @ [''Download Error:'' @ error],
                            alerts := alerts tried @ [exportFailedMessage]\<rparr>)
           in caught\<lparr>previewStyle := Some originalStyle\<rparr>))"

section \<open>Properties\<close>

subsection \<open>Colour history: one commit\<close>

lemma commit_unfold:
  "commitColorToHistory c prev = c # take 7 (filter (\<lambda>color. color \<noteq> c) prev)"
  by (simp add: commitColorToHistory_def MAX_COLOR_HISTORY_def)

lemma commit_length_le: "length (commitColorToHistory c prev) \<le> 8"
  by (simp add: commit_unfold)

lemma commit_distinct: "distinct prev \<Longrightarrow> distinct (commitColorToHistory c prev)"
  by (auto simp: commit_unfold dest: in_set_takeD)

lemma commit_count_one: "count_list (commitColorToHistory c prev) c = 1"
proof -
  have "c \<notin> set (take 7 (filter (\<lambda>color. color \<noteq> c) prev))"
    by (auto dest: in_set_takeD)
  then show ?thesis
    by (simp add: commit_unfold)
qed

lemma filter_present_shorter:
  "c \<in> set prev \<Longrightarrow> length (filter (\<lambda>color. color \<noteq> c) prev) < length prev"
  by (induction prev) (auto simp: less_Suc_eq_le)

lemma commit_present_no_loss:
  assumes "c \<in> set prev" and "length prev \<le> 8"
  shows "commitColorToHistory c prev = c # filter (\<lambda>color. color \<noteq> c) prev"
proof -
  have "length (filter (\<lambda>color. color \<noteq> c) prev) \<le> 7"
    using filter_present_shorter [OF assms(1)] assms(2) by simp
  then show ?thesis
    by (simp add: commit_unfold)
qed

lemma mset_move_to_front:
  "distinct prev \<Longrightarrow> c \<in> set prev \<Longrightarrow>
   mset (c # filter (\<lambda>color. color \<noteq> c) prev) = mset prev"
proof (induction prev)
  case Nil
  then show ?case by simp
next
  case (Cons a prev)
  show ?case
  proof (cases "a = c")
    case True
    with Cons.prems have "c \<notin> set prev" by simp
    then have "filter (\<lambda>color. color \<noteq> c) prev = prev"
      by (auto simp: filter_id_conv)
    with True show ?thesis by simp
  next
    case False
    with Cons show ?thesis by simp
  qed
qed

subsection \<open>Colour history: a run of commits\<close>

lemma commitAll_snoc:
  "commitAll prev (colors @ [c]) = commitColorToHistory c (commitAll prev colors)"
  by (simp add: commitAll_def)

lemma commitAll_fresh: "distinct colors \<Longrightarrow> commitAll [] colors = take 8 (rev colors)"
proof (induction colors rule: rev_induct)
  case Nil
  show ?case by (simp add: commitAll_def)
next
  case (snoc c colors)
  then have hist: "commitAll [] colors = take 8 (rev colors)" and fresh: "c \<notin> set colors"
    by simp_all
  have "c \<notin> set (take 8 (rev colors))"
    using fresh by (auto dest: in_set_takeD)
  then have "filter (\<lambda>color. color \<noteq> c) (take 8 (rev colors)) = take 8 (rev colors)"
    by (auto simp: filter_id_conv)
  then show ?case
    by (simp add: commitAll_snoc hist commit_unfold min_def)
qed

text \<open>
  C4. Committing a colour that is already in the history puts it first and leaves exactly
  one copy of it; for a history within the cap nothing else is lost and the other colours
  keep their order (a duplicate-free history is permuted). Nine commits of pairwise
  distinct colours from the empty history leave eight colours, the eight most recent
  ones, most recent first: the colour committed first is gone.
\<close>

theorem commit_moves_to_front_and_evicts_oldest:
  "(c \<in> set prev \<longrightarrow>
      hd (commitColorToHistory c prev) = c \<and>
      count_list (commitColorToHistory c prev) c = 1 \<and>
      (length prev \<le> 8 \<longrightarrow>
         commitColorToHistory c prev = c # filter (\<lambda>color. color \<noteq> c) prev \<and>
         (distinct prev \<longrightarrow> mset (commitColorToHistory c prev) = mset prev \<and>
                            length (commitColorToHistory c prev) = length prev))) \<and>
   (distinct colors \<and> length colors = 9 \<longrightarrow>
      length (commitAll [] colors) = 8 \<and>
      hd colors \<notin> set (commitAll [] colors) \<and>
      commitAll [] colors = rev (tl colors))"
proof (intro conjI impI)
  show "hd (commitColorToHistory c prev) = c"
    by (simp add: commit_unfold)
  show "count_list (commitColorToHistory c prev) c = 1"
    by (rule commit_count_one)
next
  assume "c \<in> set prev" and "length prev \<le> 8"
  then show "commitColorToHistory c prev = c # filter (\<lambda>color. color \<noteq> c) prev"
    by (rule commit_present_no_loss)
next
  assume present: "c \<in> set prev" and cap: "length prev \<le> 8" and dist: "distinct prev"
  show perm: "mset (commitColorToHistory c prev) = mset prev"
    using commit_present_no_loss [OF present cap] mset_move_to_front [OF dist present]
    by simp
  show "length (commitColorToHistory c prev) = length prev"
    using perm by (rule mset_eq_length)
next
  assume nine: "distinct colors \<and> length colors = 9"
  then obtain c0 rest where split: "colors = c0 # rest" and rest: "length rest = 8"
    by (cases colors) auto
  have run: "commitAll [] colors = take 8 (rev colors)"
    using nine by (simp add: commitAll_fresh)
  have kept: "take 8 (rev colors) = rev rest"
    using rest by (simp add: split)
  show "length (commitAll [] colors) = 8"
    by (simp add: run kept rest)
  show "hd colors \<notin> set (commitAll [] colors)"
    unfolding run kept using nine by (simp add: split)
  show "commitAll [] colors = rev (tl colors)"
    unfolding run kept by (simp add: split)
qed

theorem commit_moves_to_front_and_evicts_oldest_witness:
  "commitColorToHistory ''#222222'' [''#111111'', ''#222222'', ''#333333'']
     = [''#222222'', ''#111111'', ''#333333''] \<and>
   commitAll [] [''#000000'', ''#111111'', ''#222222'', ''#333333'', ''#444444'',
                 ''#555555'', ''#666666'', ''#777777'', ''#888888'']
     = [''#888888'', ''#777777'', ''#666666'', ''#555555'', ''#444444'',
        ''#333333'', ''#222222'', ''#111111'']"
  using commit_moves_to_front_and_evicts_oldest
    [of "''#222222''" "[''#111111'', ''#222222'', ''#333333'']"
        "[''#000000'', ''#111111'', ''#222222'', ''#333333'', ''#444444'',
          ''#555555'', ''#666666'', ''#777777'', ''#888888'']"]
  by simp

subsection \<open>The startup load\<close>

lemma filterStrings_strings:
  "map JString (filterStrings elements) =
   filter (\<lambda>color. case color of JString _ \<Rightarrow> True | _ \<Rightarrow> False) elements"
  by (induction elements rule: filterStrings.induct) simp_all

lemma filterStrings_map_JString: "filterStrings (map JString history) = history"
  by (induction history) simp_all

lemma load_not_array:
  "(\<And>elements. parsed \<noteq> JArray elements) \<Longrightarrow>
   loadColorHistory (Some (Parses parsed)) = [DEFAULT_SHADOW_COLOR]"
  by (cases parsed) (auto simp: loadColorHistory_def loadColorHistory_try_def)

lemma load_array:
  "loadColorHistory (Some (Parses (JArray elements))) =
   (if elements = [] then [DEFAULT_SHADOW_COLOR] else filterStrings elements)"
  by (simp add: loadColorHistory_def loadColorHistory_try_def)

lemma load_thrown:
  "loadColorHistory_try stored = Inl e \<Longrightarrow> loadColorHistory (Some stored) = [DEFAULT_SHADOW_COLOR]"
  by (simp add: loadColorHistory_def)

text \<open>
  C6, as amended. The load returns the one-element default list when there is no window,
  when reading the store throws, when the key is absent or its text is empty, when the
  text does not parse, when it parses to a value that is not an array, and when it parses
  to the empty array. For an array that holds at least one string it returns the string
  elements of the array, in order, and nothing else. An exception of the \<^verbatim>\<open>try\<close>
  block never leaves the function: it becomes the default list.
\<close>

theorem loadColorHistory_fallback:
  "loadColorHistory None = [DEFAULT_SHADOW_COLOR] \<and>
   loadColorHistory (Some GetItemThrows) = [DEFAULT_SHADOW_COLOR] \<and>
   loadColorHistory (Some KeyAbsent) = [DEFAULT_SHADOW_COLOR] \<and>
   loadColorHistory (Some EmptyText) = [DEFAULT_SHADOW_COLOR] \<and>
   loadColorHistory (Some Unparseable) = [DEFAULT_SHADOW_COLOR] \<and>
   ((\<forall>elements. parsed \<noteq> JArray elements) \<longrightarrow>
      loadColorHistory (Some (Parses parsed)) = [DEFAULT_SHADOW_COLOR]) \<and>
   loadColorHistory (Some (Parses (JArray []))) = [DEFAULT_SHADOW_COLOR] \<and>
   (filterStrings elements \<noteq> [] \<longrightarrow>
      loadColorHistory (Some (Parses (JArray elements))) = filterStrings elements \<and>
      map JString (filterStrings elements) =
        filter (\<lambda>color. case color of JString _ \<Rightarrow> True | _ \<Rightarrow> False) elements) \<and>
   (loadColorHistory_try stored = Inl thrown \<longrightarrow>
      loadColorHistory (Some stored) = [DEFAULT_SHADOW_COLOR])"
proof (intro conjI impI)
  show "loadColorHistory None = [DEFAULT_SHADOW_COLOR]"
    by (simp add: loadColorHistory_def)
  show "loadColorHistory (Some GetItemThrows) = [DEFAULT_SHADOW_COLOR]"
    by (simp add: loadColorHistory_def loadColorHistory_try_def)
  show "loadColorHistory (Some KeyAbsent) = [DEFAULT_SHADOW_COLOR]"
    by (simp add: loadColorHistory_def loadColorHistory_try_def)
  show "loadColorHistory (Some EmptyText) = [DEFAULT_SHADOW_COLOR]"
    by (simp add: loadColorHistory_def loadColorHistory_try_def)
  show "loadColorHistory (Some Unparseable) = [DEFAULT_SHADOW_COLOR]"
    by (simp add: loadColorHistory_def loadColorHistory_try_def)
  show "loadColorHistory (Some (Parses (JArray []))) = [DEFAULT_SHADOW_COLOR]"
    by (simp add: load_array)
  show "map JString (filterStrings elements) =
        filter (\<lambda>color. case color of JString _ \<Rightarrow> True | _ \<Rightarrow> False) elements"
    by (rule filterStrings_strings)
next
  assume "\<forall>elements. parsed \<noteq> JArray elements"
  then show "loadColorHistory (Some (Parses parsed)) = [DEFAULT_SHADOW_COLOR]"
    by (simp add: load_not_array)
next
  assume "filterStrings elements \<noteq> []"
  then have "elements \<noteq> []" by auto
  then show "loadColorHistory (Some (Parses (JArray elements))) = filterStrings elements"
    by (simp add: load_array)
next
  assume "loadColorHistory_try stored = Inl thrown"
  then show "loadColorHistory (Some stored) = [DEFAULT_SHADOW_COLOR]"
    by (rule load_thrown)
qed

theorem loadColorHistory_fallback_witness:
  "loadColorHistory (Some (Parses (JObject []))) = ''#57e8ff'' # [] \<and>
   loadColorHistory (Some (Parses (JArray [JString ''#ff0000'', JString ''#00ff00'']))) =
     [''#ff0000'', ''#00ff00''] \<and>
   loadColorHistory_try Unparseable = Inl SyntaxError \<and>
   loadColorHistory (Some Unparseable) = [''#57e8ff'']"
  using loadColorHistory_fallback
    [of "JObject []" "[JString ''#ff0000'', JString ''#00ff00'']" Unparseable SyntaxError]
  by (simp add: DEFAULT_SHADOW_COLOR_def loadColorHistory_try_def)

text \<open>
  A stored array with an element that is not a string is malformed, and the load does not
  fall back to the default for it: it keeps the strings, and keeps nothing when no element
  is a string.
\<close>

theorem loadColorHistory_salvages_counterexample:
  "loadColorHistory (Some (Parses (JArray [JString ''#ffffff'', JNumber 1]))) = [''#ffffff''] \<and>
   [''#ffffff''] \<noteq> [DEFAULT_SHADOW_COLOR] \<and>
   loadColorHistory (Some (Parses (JArray [JNumber 1, JNumber 2]))) = [] \<and>
   [] \<noteq> [DEFAULT_SHADOW_COLOR]"
  by (simp add: load_array DEFAULT_SHADOW_COLOR_def)

subsection \<open>Colour history: the invariant\<close>

lemma commitAll_inv:
  "length prev \<le> 8 \<and> distinct prev \<Longrightarrow>
   length (commitAll prev colors) \<le> 8 \<and> distinct (commitAll prev colors)"
proof (induction colors rule: rev_induct)
  case Nil
  then show ?case by (simp add: commitAll_def)
next
  case (snoc c colors)
  then show ?case
    by (simp add: commitAll_snoc commit_length_le commit_distinct)
qed

lemma commitAll_length_le: "colors \<noteq> [] \<Longrightarrow> length (commitAll prev colors) \<le> 8"
  by (cases colors rule: rev_cases) (simp_all add: commitAll_snoc commit_length_le)

lemma load_persisted:
  "loadColorHistory (Some (persistColorHistory history)) =
   (if history = [] then [DEFAULT_SHADOW_COLOR] else history)"
  by (simp add: persistColorHistory_def load_array filterStrings_map_JString)

text \<open>
  C5, as amended. Commits keep a history within the cap of 8 and free of duplicates when
  it starts so; after at least one commit the history is within the cap whatever the store
  held; a history within the cap and free of duplicates that the program has written to
  the store is loaded back within the cap and free of duplicates; and the default list,
  loaded without a window or without the key, is within the cap and free of duplicates.
\<close>

theorem colorHistory_invariant_from_valid_load:
  "(length prev \<le> 8 \<and> distinct prev \<longrightarrow>
      length (commitAll prev colors) \<le> 8 \<and> distinct (commitAll prev colors)) \<and>
   (colors \<noteq> [] \<longrightarrow> length (commitAll (loadColorHistory window) colors) \<le> 8) \<and>
   (length history \<le> 8 \<and> distinct history \<longrightarrow>
      length (loadColorHistory (Some (persistColorHistory history))) \<le> 8 \<and>
      distinct (loadColorHistory (Some (persistColorHistory history)))) \<and>
   length (loadColorHistory None) \<le> 8 \<and> distinct (loadColorHistory None) \<and>
   length (loadColorHistory (Some KeyAbsent)) \<le> 8 \<and> distinct (loadColorHistory (Some KeyAbsent))"
proof (intro conjI impI)
  assume "length prev \<le> 8 \<and> distinct prev"
  then show "length (commitAll prev colors) \<le> 8" and "distinct (commitAll prev colors)"
    using commitAll_inv by blast+
next
  assume "colors \<noteq> []"
  then show "length (commitAll (loadColorHistory window) colors) \<le> 8"
    by (rule commitAll_length_le)
next
  assume "length history \<le> 8 \<and> distinct history"
  then show "length (loadColorHistory (Some (persistColorHistory history))) \<le> 8"
    and "distinct (loadColorHistory (Some (persistColorHistory history)))"
    by (simp_all add: load_persisted)
next
  show "length (loadColorHistory None) \<le> 8" and "distinct (loadColorHistory None)"
    by (simp_all add: loadColorHistory_def)
  show "length (loadColorHistory (Some KeyAbsent)) \<le> 8"
    and "distinct (loadColorHistory (Some KeyAbsent))"
    by (simp_all add: loadColorHistory_def loadColorHistory_try_def)
qed

theorem colorHistory_invariant_from_valid_load_witness:
  "commitAll [''#57e8ff''] [''#ff0000'', ''#57e8ff'', ''#00ff00''] =
     [''#00ff00'', ''#57e8ff'', ''#ff0000''] \<and>
   length (commitAll (loadColorHistory (Some KeyAbsent)) [''#ff0000'']) \<le> 8 \<and>
   loadColorHistory (Some (persistColorHistory [''#ff0000'', ''#57e8ff''])) =
     [''#ff0000'', ''#57e8ff'']"
  using colorHistory_invariant_from_valid_load
    [of "[''#57e8ff'']" "[''#ff0000'', ''#57e8ff'', ''#00ff00'']" "Some KeyAbsent"
        "[''#ff0000'', ''#57e8ff'']"]
  by (simp add: commitAll_def commit_unfold load_persisted)

text \<open>
  The load does not remove duplicates: a stored array with the same colour twice is
  loaded as it is, and a commit of another colour keeps both copies.
\<close>

theorem colorHistory_duplicates_counterexample:
  "\<not> distinct (loadColorHistory (Some (Parses (JArray [JString ''#111111'', JString ''#111111''])))) \<and>
   \<not> distinct (commitAll
        (loadColorHistory (Some (Parses (JArray [JString ''#111111'', JString ''#111111'']))))
        [''#222222''])"
  by (simp add: load_array commitAll_def commit_unfold)

subsection \<open>Rounding to a double\<close>

lemma bitlength_upper: "n < 2 ^ bitlength n"
proof (induction n rule: bitlength.induct)
  case (1 n)
  show ?case
  proof (cases "n = 0")
    case True
    then show ?thesis by (simp add: bitlength.simps [of n])
  next
    case False
    with 1 have "n div 2 < 2 ^ bitlength (n div 2)" by simp
    then have "n < 2 * 2 ^ bitlength (n div 2)" by linarith
    with False show ?thesis by (simp add: bitlength.simps [of n])
  qed
qed

lemma bitlength_lower: "0 < n \<Longrightarrow> 2 ^ bitlength n \<le> 2 * n"
proof (induction n rule: bitlength.induct)
  case (1 n)
  then have pos: "n \<noteq> 0" by simp
  show ?case
  proof (cases "n div 2 = 0")
    case True
    with pos have "n = Suc 0" by linarith
    then show ?thesis
      by (simp add: bitlength.simps [of "Suc 0"] bitlength.simps [of 0])
  next
    case False
    with 1 pos have "2 ^ bitlength (n div 2) \<le> 2 * (n div 2)" by simp
    then have "2 * 2 ^ bitlength (n div 2) \<le> 2 * n" by linarith
    with pos show ?thesis by (simp add: bitlength.simps [of n])
  qed
qed

lemma bitlength_pos: "0 < n \<Longrightarrow> 0 < bitlength n"
  by (simp add: bitlength.simps [of n])

lemma pow2_pos: "0 < pow2 k"
  by (simp add: pow2_def)

lemma binaryExponent_bounds:
  assumes "1 \<le> x"
  shows "0 \<le> binaryExponent x"
    and "2 ^ nat (binaryExponent x) \<le> x"
    and "x < 2 ^ (nat (binaryExponent x) + 1)"
proof -
  define n where "n = nat \<lfloor>x\<rfloor>"
  have n: "0 < n" "real n \<le> x" "x < real n + 1"
    using assms unfolding n_def by linarith+
  have e: "binaryExponent x = int (bitlength n) - 1"
    using assms by (simp add: binaryExponent_def n_def)
  have b: "0 < bitlength n"
    using n(1) by (rule bitlength_pos)
  then show "0 \<le> binaryExponent x"
    by (simp add: e)
  have ne: "nat (binaryExponent x) = bitlength n - 1"
    by (simp add: e)
  have "2 * 2 ^ (bitlength n - 1) = (2::nat) ^ bitlength n"
    using b by (cases "bitlength n") simp_all
  with bitlength_lower [OF n(1)] have "2 ^ (bitlength n - 1) \<le> n"
    by linarith
  from of_nat_mono [OF this, where ?'a = real]
  have "(2::real) ^ (bitlength n - 1) \<le> real n"
    by simp
  with n(2) have "2 ^ (bitlength n - 1) \<le> x"
    by linarith
  then show "2 ^ nat (binaryExponent x) \<le> x"
    by (simp only: ne)
  have "n + 1 \<le> 2 ^ bitlength n"
    using bitlength_upper [of n] by simp
  from of_nat_mono [OF this, where ?'a = real]
  have "real n + 1 \<le> 2 ^ bitlength n"
    by simp
  with n(3) have "x < 2 ^ bitlength n"
    by linarith
  moreover have "nat (binaryExponent x) + 1 = bitlength n"
    using b by (simp add: ne)
  ultimately show "x < 2 ^ (nat (binaryExponent x) + 1)"
    by simp
qed

lemma binaryExponent_unique:
  assumes lo: "2 ^ k \<le> x" and hi: "x < 2 ^ (k + 1)"
  shows "binaryExponent x = int k"
proof -
  have "(1::real) \<le> 2 ^ k"
    by simp
  with lo have x1: "1 \<le> x"
    by linarith
  define m where "m = nat (binaryExponent x)"
  have m: "(2::real) ^ m \<le> x" "x < 2 ^ (m + 1)"
    using binaryExponent_bounds(2,3) [OF x1] by (simp_all add: m_def)
  from m(1) hi have "(2::real) ^ m < 2 ^ (k + 1)"
    by linarith
  then have "m < k + 1"
    by (rule power_less_imp_less_exp [rotated]) simp
  moreover from lo m(2) have "(2::real) ^ k < 2 ^ (m + 1)"
    by linarith
  then have "k < m + 1"
    by (rule power_less_imp_less_exp [rotated]) simp
  ultimately have "m = k"
    by simp
  then show ?thesis
    using binaryExponent_bounds(1) [OF x1] by (simp add: m_def)
qed

lemma roundTiesToEven_int: "roundTiesToEven (real_of_int k) = k"
  by (simp add: roundTiesToEven_def)

lemma roundTiesToEven_close: "\<bar>real_of_int (roundTiesToEven x) - x\<bar> \<le> 1 / 2"
proof -
  have "real_of_int \<lfloor>x\<rfloor> \<le> x" "x < real_of_int \<lfloor>x\<rfloor> + 1"
    by linarith+
  then show ?thesis
    by (auto simp: roundTiesToEven_def Let_def)
qed

lemma roundTiesToEven_ge: "real_of_int k \<le> x \<Longrightarrow> k \<le> roundTiesToEven x"
proof -
  assume "real_of_int k \<le> x"
  then have "k \<le> \<lfloor>x\<rfloor>" by (simp add: le_floor_iff)
  moreover have "\<lfloor>x\<rfloor> \<le> roundTiesToEven x"
    by (simp add: roundTiesToEven_def Let_def)
  ultimately show ?thesis by simp
qed

lemma toDouble_not_NaN: "toDouble x \<noteq> NaN"
  by (simp add: toDouble_def Let_def)

lemma toDouble_ge_one:
  assumes "1 \<le> x"
  shows "toDouble x =
    (let ulp = pow2 (binaryExponent x - 52);
         r = real_of_int (roundTiesToEven (x / ulp)) * ulp
     in if 2 ^ 1024 \<le> r then PosInf else Fin r)"
proof -
  have "0 \<le> binaryExponent x"
    using assms by (rule binaryExponent_bounds)
  then have "max (binaryExponent x) (- 1022) = binaryExponent x"
    by simp
  moreover have "\<bar>x\<bar> = x" "x \<noteq> 0" "0 < x"
    using assms by simp_all
  ultimately show ?thesis
    by (simp add: toDouble_def Let_def)
qed

lemma ulp_le:
  assumes "1 \<le> x"
  shows "pow2 (binaryExponent x - 52) \<le> x"
proof -
  define k where "k = nat (binaryExponent x)"
  have e: "binaryExponent x = int k"
    using binaryExponent_bounds(1) [OF assms] by (simp add: k_def)
  have lo: "(2::real) ^ k \<le> x"
    using binaryExponent_bounds(2) [OF assms] by (simp add: k_def)
  show ?thesis
  proof (cases "52 \<le> k")
    case True
    then have "pow2 (binaryExponent x - 52) = 2 ^ (k - 52)"
      by (simp add: e pow2_def nat_diff_distrib)
    also have "\<dots> \<le> (2::real) ^ k"
      by (rule power_increasing) simp_all
    finally show ?thesis
      using lo by linarith
  next
    case False
    then have "pow2 (binaryExponent x - 52) = 1 / 2 ^ (52 - k)"
      by (simp add: e pow2_def nat_diff_distrib)
    also have "\<dots> \<le> (1::real)"
      by simp
    finally show ?thesis
      using assms by linarith
  qed
qed

lemma toDouble_finite:
  assumes x1: "1 \<le> x" and below: "x < 2 ^ 1023"
  shows "toDouble x =
    Fin (real_of_int (roundTiesToEven (x / pow2 (binaryExponent x - 52))) *
         pow2 (binaryExponent x - 52))"
proof -
  define u where "u = pow2 (binaryExponent x - 52)"
  define z where "z = roundTiesToEven (x / u)"
  have u: "0 < u" "u \<le> x"
    unfolding u_def by (rule pow2_pos, rule ulp_le [OF x1])
  have "\<bar>real_of_int z - x / u\<bar> \<le> 1 / 2"
    unfolding z_def by (rule roundTiesToEven_close)
  then have "real_of_int z \<le> x / u + 1 / 2"
    by linarith
  then have "real_of_int z * u \<le> (x / u + 1 / 2) * u"
    using u(1) by (simp add: mult_right_mono)
  also have "\<dots> = x + u / 2"
    using u(1) by (simp add: field_simps)
  finally have r: "real_of_int z * u \<le> x + u / 2" .
  define B :: real where "B = 2 ^ 1023"
  have s: "(1024::nat) = Suc 1023"
    by simp
  have B2: "(2::real) ^ 1024 = 2 * B"
    unfolding s B_def by (rule power_Suc)
  have "x < B"
    using below by (simp only: B_def)
  with r u(2) x1 have "real_of_int z * u < 2 * B"
    by linarith
  then have "\<not> 2 ^ 1024 \<le> real_of_int z * u"
    by (simp only: B2 not_le)
  then show ?thesis
    unfolding toDouble_ge_one [OF x1] Let_def u_def z_def by (simp only: if_False)
qed

text \<open>How a double is computed once the exponent of the real number is known.\<close>

lemma toDouble_at:
  assumes lo: "2 ^ k \<le> x" and hi: "x < 2 ^ (k + 1)" and k: "k < 1023"
  shows "toDouble x =
    Fin (real_of_int (roundTiesToEven (x / pow2 (int k - 52))) * pow2 (int k - 52))"
proof -
  have "(1::real) \<le> 2 ^ k"
    by simp
  with lo have x1: "1 \<le> x"
    by linarith
  have "(2::real) ^ (k + 1) \<le> 2 ^ 1023"
    using k by (intro power_increasing) simp_all
  with hi have "x < 2 ^ 1023"
    by linarith
  from toDouble_finite [OF x1 this] show ?thesis
    by (simp add: binaryExponent_unique [OF lo hi])
qed

lemma toDouble_nat_small:
  assumes "n \<le> 2 ^ 53"
  shows "toDouble (real n) = Fin (real n)"
proof (cases "n = 0")
  case True
  then show ?thesis by (simp add: toDouble_def)
next
  case False
  define x where "x = real n"
  have x1: "1 \<le> x"
    using False by (simp add: x_def)
  from of_nat_mono [OF assms, where ?'a = real] have x53: "x \<le> 2 ^ 53"
    by (simp add: x_def)
  also have "\<dots> < (2::real) ^ 1023"
    by (rule power_strict_increasing) simp_all
  finally have fin: "x < 2 ^ 1023" .
  define k where "k = nat (binaryExponent x)"
  have e: "binaryExponent x = int k"
    using binaryExponent_bounds(1) [OF x1] by (simp add: k_def)
  have lo: "(2::real) ^ k \<le> x"
    using binaryExponent_bounds(2) [OF x1] by (simp add: k_def)
  with x53 have "(2::real) ^ k \<le> 2 ^ 53"
    by linarith
  then have k53: "k \<le> 53"
    by (rule power_le_imp_le_exp [rotated]) simp
  have "real_of_int (roundTiesToEven (x / pow2 (int k - 52))) * pow2 (int k - 52) = x"
  proof (cases "k = 53")
    case True
    with lo x53 have "x = 2 ^ 53"
      by simp
    moreover have "roundTiesToEven (2 ^ 53 / 2) = 2 ^ 52"
      using roundTiesToEven_int [of "2 ^ 52"] by simp
    ultimately show ?thesis
      using True by (simp add: pow2_def)
  next
    case False
    with k53 have k52: "k \<le> 52"
      by simp
    then have u: "pow2 (int k - 52) = 1 / 2 ^ (52 - k)"
      by (cases "k = 52") (simp_all add: pow2_def nat_diff_distrib)
    have "x / (1 / 2 ^ (52 - k)) = real_of_int (int n * 2 ^ (52 - k))"
      by (simp add: x_def)
    then have "roundTiesToEven (x / (1 / 2 ^ (52 - k))) = int n * 2 ^ (52 - k)"
      by (simp only: roundTiesToEven_int)
    then show ?thesis
      by (simp add: u x_def)
  qed
  moreover from toDouble_finite [OF x1 fin]
  have "toDouble x =
      Fin (real_of_int (roundTiesToEven (x / pow2 (int k - 52))) * pow2 (int k - 52))"
    by (simp only: e)
  ultimately have "toDouble x = Fin x"
    by (simp only:)
  then show ?thesis
    by (simp only: x_def)
qed

lemma toDouble_nat_integral:
  "toDouble (real n) = PosInf \<or> (\<exists>m::nat. toDouble (real n) = Fin (real m))"
proof (cases "n \<le> 2 ^ 53")
  case True
  then show ?thesis
    using toDouble_nat_small by blast
next
  case False
  define x where "x = real n"
  have n53: "2 ^ 53 \<le> n"
    using False by simp
  from of_nat_mono [OF this, where ?'a = real] have x53: "2 ^ 53 \<le> x"
    by (simp add: x_def)
  then have x1: "1 \<le> x"
    by simp
  define k where "k = nat (binaryExponent x)"
  have e: "binaryExponent x = int k"
    using binaryExponent_bounds(1) [OF x1] by (simp add: k_def)
  have "x < 2 ^ (k + 1)"
    using binaryExponent_bounds(3) [OF x1] by (simp add: k_def)
  with x53 have "(2::real) ^ 53 < 2 ^ (k + 1)"
    by linarith
  then have "53 < k + 1"
    by (rule power_less_imp_less_exp [rotated]) simp
  then have u: "pow2 (binaryExponent x - 52) = 2 ^ (k - 52)"
    by (simp add: e pow2_def nat_diff_distrib)
  define z where "z = roundTiesToEven (x / 2 ^ (k - 52))"
  have "0 \<le> x / 2 ^ (k - 52)"
    using x1 by simp
  then have "real_of_int 0 \<le> x / 2 ^ (k - 52)"
    by simp
  then have z0: "0 \<le> z"
    unfolding z_def by (rule roundTiesToEven_ge)
  have nat: "real_of_int z * 2 ^ (k - 52) = real (nat z * 2 ^ (k - 52))"
    using z0 by simp
  have td: "toDouble x =
      (if 2 ^ 1024 \<le> real_of_int z * 2 ^ (k - 52) then PosInf
       else Fin (real_of_int z * 2 ^ (k - 52)))"
    by (simp only: toDouble_ge_one [OF x1] Let_def u z_def)
  show ?thesis
  proof (cases "2 ^ 1024 \<le> real_of_int z * 2 ^ (k - 52)")
    case True
    with td have "toDouble x = PosInf"
      by (simp only: if_True)
    then show ?thesis
      by (simp only: x_def simp_thms)
  next
    case False
    with td have "toDouble x = Fin (real (nat z * 2 ^ (k - 52)))"
      by (simp only: if_False nat)
    then show ?thesis
      unfolding x_def by blast
  qed
qed

lemma toDouble_overflow:
  assumes "2 ^ 1024 \<le> x"
  shows "toDouble x = PosInf"
proof -
  have "(1::real) \<le> 2 ^ 1024"
    by (rule one_le_power) simp
  with assms have x1: "1 \<le> x"
    by linarith
  define k where "k = nat (binaryExponent x)"
  have e: "binaryExponent x = int k"
    using binaryExponent_bounds(1) [OF x1] by (simp add: k_def)
  have lo: "(2::real) ^ k \<le> x"
    using binaryExponent_bounds(2) [OF x1] by (simp add: k_def)
  have "x < 2 ^ (k + 1)"
    using binaryExponent_bounds(3) [OF x1] by (simp add: k_def)
  with assms have "(2::real) ^ 1024 < 2 ^ (k + 1)"
    by linarith
  then have "1024 < k + 1"
    by (rule power_less_imp_less_exp [rotated]) simp
  then have k: "1024 \<le> k"
    by simp
  then have u: "pow2 (binaryExponent x - 52) = 2 ^ (k - 52)"
    by (simp add: e pow2_def nat_diff_distrib)
  define z where "z = roundTiesToEven (x / 2 ^ (k - 52))"
  have pw: "(2::real) ^ k = 2 ^ 52 * 2 ^ (k - 52)"
    unfolding power_add [symmetric] using k by simp
  have "real_of_int (2 ^ 52) = 2 ^ k / 2 ^ (k - 52)"
    by (simp add: pw)
  also have "\<dots> \<le> x / 2 ^ (k - 52)"
    using lo by (intro divide_right_mono) simp_all
  finally have "2 ^ 52 \<le> z"
    unfolding z_def by (rule roundTiesToEven_ge)
  then have "real_of_int (2 ^ 52) \<le> real_of_int z"
    by (rule iffD2 [OF of_int_le_iff])
  then have "2 ^ 52 * 2 ^ (k - 52) \<le> real_of_int z * 2 ^ (k - 52)"
    by (intro mult_right_mono) simp_all
  then have "2 ^ k \<le> real_of_int z * 2 ^ (k - 52)"
    by (simp only: pw)
  moreover have "(2::real) ^ 1024 \<le> 2 ^ k"
    using k by (intro power_increasing) simp_all
  ultimately have "2 ^ 1024 \<le> real_of_int z * 2 ^ (k - 52)"
    by (rule order_trans [rotated])
  then show ?thesis
    by (simp only: toDouble_ge_one [OF x1] Let_def u z_def if_True)
qed

subsection \<open>Sanitizing and parsing a price\<close>

lemma replaceAll_class_delete:
  "replaceAll_class matches [] value = filter (\<lambda>c. \<not> matches c) value"
  by (induction "value") (simp_all add: replaceAll_class_def)

lemma sanitizeDigits_filter: "sanitizeDigits value = filter isDigit value"
  by (simp add: sanitizeDigits_def replaceAll_class_delete)

lemma sanitizeDigits_digits: "list_all isDigit (sanitizeDigits value)"
  by (simp add: sanitizeDigits_filter list_all_iff)

lemma sanitizeDigits_id: "list_all isDigit value \<Longrightarrow> sanitizeDigits value = value"
  by (simp add: sanitizeDigits_filter list_all_iff filter_id_conv)

lemma digits_value_snoc: "digits_value (s @ [c]) = 10 * digits_value s + digit_value c"
  by (simp add: digits_value_def)

lemma decimal_value_snoc:
  "decimal_value (s @ [c]) = 10 * decimal_value s + digit_value c"
proof -
  have "(\<Sum>i<length s. digit_value ((s @ [c]) ! i) * 10 ^ (length s - i)) =
        (\<Sum>i<length s. 10 * (digit_value (s ! i) * 10 ^ (length s - 1 - i)))"
  proof (rule sum.cong)
    fix i assume "i \<in> {..<length s}"
    then have i: "i < length s" by simp
    then have "length s - i = Suc (length s - 1 - i)" by simp
    then show "digit_value ((s @ [c]) ! i) * 10 ^ (length s - i) =
               10 * (digit_value (s ! i) * 10 ^ (length s - 1 - i))"
      using i by (simp add: nth_append)
  qed simp
  then show ?thesis
    by (simp add: decimal_value_def sum_distrib_left)
qed

lemma digits_value_decimal: "digits_value s = decimal_value s"
proof (induction s rule: rev_induct)
  case Nil
  show ?case by (simp add: digits_value_def decimal_value_def)
next
  case (snoc c s)
  then show ?case by (simp add: digits_value_snoc decimal_value_snoc)
qed

lemma priceValue_double:
  "priceValue (computeItem item) = toDouble (real (decimal_value (sanitizeDigits (price item))))"
proof -
  define parsed where "parsed = toDouble (real (decimal_value (sanitizeDigits (price item))))"
  have "parsed \<noteq> NaN"
    unfolding parsed_def by (rule toDouble_not_NaN)
  then have "(if falsy parsed then Fin 0 else parsed) = parsed"
    by (auto simp: falsy_def)
  then show ?thesis
    by (simp add: computeItem_def Let_def Number_of_digits_def digits_value_decimal
        parsed_def [symmetric])
qed

text \<open>
  C8, as amended. \<open>sanitizeDigits\<close> keeps exactly the decimal digits of its input, in
  their order: the result is the input filtered by \<open>isDigit\<close>, a subsequence of it made
  of digits only. The numeric price of an item is the double nearest to the natural number
  that the sanitized price denotes: that number itself when it is at most \<open>2 ^ 53\<close>, and
  0 when the sanitized price is empty.
\<close>

theorem sanitizeDigits_and_priceValue:
  "sanitizeDigits value = filter isDigit value \<and>
   list_all isDigit (sanitizeDigits value) \<and>
   subseq (sanitizeDigits value) value \<and>
   priceValue (computeItem item) =
     toDouble (real (decimal_value (sanitizeDigits (price item)))) \<and>
   (decimal_value (sanitizeDigits (price item)) \<le> 2 ^ 53 \<longrightarrow>
      priceValue (computeItem item) = Fin (real (decimal_value (sanitizeDigits (price item))))) \<and>
   (sanitizeDigits (price item) = [] \<longrightarrow> priceValue (computeItem item) = Fin 0)"
proof (intro conjI impI)
  show "sanitizeDigits value = filter isDigit value"
    by (rule sanitizeDigits_filter)
  show "list_all isDigit (sanitizeDigits value)"
    by (rule sanitizeDigits_digits)
  show "subseq (sanitizeDigits value) value"
    by (simp add: sanitizeDigits_filter)
  show "priceValue (computeItem item) =
     toDouble (real (decimal_value (sanitizeDigits (price item))))"
    by (rule priceValue_double)
next
  assume "decimal_value (sanitizeDigits (price item)) \<le> 2 ^ 53"
  then show "priceValue (computeItem item) =
      Fin (real (decimal_value (sanitizeDigits (price item))))"
    unfolding priceValue_double by (rule toDouble_nat_small)
next
  assume "sanitizeDigits (price item) = []"
  then show "priceValue (computeItem item) = Fin 0"
    by (simp add: priceValue_double decimal_value_def toDouble_def)
qed

theorem sanitizeDigits_and_priceValue_witness:
  "sanitizeDigits ''1,280 yen'' = ''1280'' \<and>
   sanitizeDigits ''abc'' = [] \<and>
   priceValue (computeItem \<lparr>item_id = ''item-1'', name = ''tea'', price = ''abc''\<rparr>) = Fin 0 \<and>
   priceValue (computeItem \<lparr>item_id = ''item-1'', name = ''tea'', price = ''0980''\<rparr>) = Fin 980 \<and>
   decimal_value ''0980'' = 980"
proof -
  let ?none = "\<lparr>item_id = ''item-1'', name = ''tea'', price = ''abc''\<rparr>"
  let ?tea = "\<lparr>item_id = ''item-1'', name = ''tea'', price = ''0980''\<rparr>"
  have d: "decimal_value ''0980'' = 980"
    by (simp add: digits_value_decimal [symmetric] digits_value_def digit_value_def)
  have s: "sanitizeDigits ''0980'' = ''0980''" "sanitizeDigits ''abc'' = []"
    "sanitizeDigits ''1,280 yen'' = ''1280''"
    by (simp_all add: sanitizeDigits_filter isDigit_def)
  have small: "decimal_value (sanitizeDigits (price ?tea)) \<le> 2 ^ 53"
    by (simp add: s d)
  have empty: "sanitizeDigits (price ?none) = []"
    by (simp add: s)
  from sanitizeDigits_and_priceValue [of "''abc''" ?none] empty
  have "priceValue (computeItem ?none) = Fin 0"
    by blast
  moreover from sanitizeDigits_and_priceValue [of "''abc''" ?tea] small
  have "priceValue (computeItem ?tea) = Fin (real (decimal_value (sanitizeDigits (price ?tea))))"
    by blast
  then have "priceValue (computeItem ?tea) = Fin 980"
    by (simp add: s d)
  ultimately show ?thesis
    using s d by simp
qed

text \<open>
  Above \<open>2 ^ 53\<close> the numeric price is not always the number the digits denote: the
  price 9007199254740993 is read as 9007199254740992.
\<close>

lemma toDouble_2_53_plus_1: "toDouble 9007199254740993 = Fin 9007199254740992"
proof -
  have "toDouble 9007199254740993 =
    Fin (real_of_int (roundTiesToEven (9007199254740993 / pow2 (int 53 - 52))) *
         pow2 (int 53 - 52))"
    by (rule toDouble_at) simp_all
  then show ?thesis
    by (simp add: pow2_def roundTiesToEven_def Let_def)
qed

theorem priceValue_rounds_counterexample:
  "priceValue (computeItem \<lparr>item_id = ''item-1'', name = ''tea'',
                              price = ''9007199254740993''\<rparr>) = Fin 9007199254740992 \<and>
   decimal_value (sanitizeDigits ''9007199254740993'') = 9007199254740993"
proof -
  have s: "sanitizeDigits ''9007199254740993'' = ''9007199254740993''"
    by (simp add: sanitizeDigits_filter isDigit_def)
  have d: "decimal_value ''9007199254740993'' = 9007199254740993"
    by (simp add: digits_value_decimal [symmetric] digits_value_def digit_value_def)
  show ?thesis
    by (simp add: priceValue_double s d toDouble_2_53_plus_1)
qed


subsection \<open>Stored prices\<close>

lemma initialItems_digits: "digitsOnlyPrices initialItems"
  by (simp add: digitsOnlyPrices_def initialItems_def isDigit_def)

lemma handleNameChange_price: "map price (handleNameChange i v items) = map price items"
  by (induction items) (simp_all add: handleNameChange_def)

lemma handlePriceChange_price:
  "map price (handlePriceChange i v items) =
   map (\<lambda>item. if item_id item = i then sanitizeDigits v else price item) items"
  by (induction items) (simp_all add: handlePriceChange_def Let_def)

lemma digitsOnlyPrices_map: "digitsOnlyPrices items = list_all (list_all isDigit) (map price items)"
  by (simp add: digitsOnlyPrices_def list_all_iff)

lemma handleEvent_digits: "digitsOnlyPrices items \<Longrightarrow> digitsOnlyPrices (handleEvent items e)"
proof (cases e)
  case (NameChange i v)
  assume "digitsOnlyPrices items"
  then show ?thesis
    by (simp add: NameChange digitsOnlyPrices_map handleNameChange_price)
next
  case (PriceChange i v)
  assume "digitsOnlyPrices items"
  then show ?thesis
    by (auto simp: PriceChange digitsOnlyPrices_map handlePriceChange_price list_all_iff
        sanitizeDigits_filter)
qed

lemma foldl_handleEvent_digits:
  "digitsOnlyPrices items \<Longrightarrow> digitsOnlyPrices (foldl handleEvent items events)"
  by (induction events arbitrary: items) (simp_all add: handleEvent_digits)

lemma itemsAfter_digits: "digitsOnlyPrices (itemsAfter events)"
  by (simp add: itemsAfter_def foldl_handleEvent_digits initialItems_digits)


lemma toDouble_nat_finite:
  assumes "n < 2 ^ 1023"
  shows "\<exists>m::nat. toDouble (real n) = Fin (real m)"
proof (cases "n = 0")
  case True
  then have "toDouble (real n) = Fin (real 0)"
    by (simp add: toDouble_def)
  then show ?thesis
    by blast
next
  case False
  then have x1: "1 \<le> real n"
    by simp
  from assms have "real n < real (2 ^ 1023)"
    by (rule iffD2 [OF of_nat_less_iff])
  then have "real n < 2 ^ 1023"
    by (simp only: of_nat_power of_nat_numeral)
  from toDouble_finite [OF x1 this] have "toDouble (real n) \<noteq> PosInf"
    by (simp only: number.distinct not_False_eq_True)
  with toDouble_nat_integral [of n] show ?thesis
    by blast
qed

lemma digits_value_nines: "digits_value (replicate k CHR ''9'') = 10 ^ k - 1"
proof (induction k)
  case 0
  show ?case by (simp add: digits_value_def)
next
  case (Suc k)
  have "replicate (Suc k) CHR ''9'' = replicate k CHR ''9'' @ [CHR ''9'']"
    by (simp add: replicate_append_same)
  then have "digits_value (replicate (Suc k) CHR ''9'') = 10 * (10 ^ k - 1) + 9"
    by (simp only: digits_value_snoc Suc.IH) (simp add: digit_value_def)
  moreover have "(1::nat) \<le> 10 ^ k"
    by simp
  then have "10 * (10 ^ k - 1) + 9 = (10::nat) ^ Suc k - 1"
    by (simp add: diff_mult_distrib2)
  ultimately show ?case
    by (simp only:)
qed

lemma price_of_nines:
  "hd (itemsAfter [PriceChange ''item-1'' (replicate k CHR ''9'')]) =
   \<lparr>item_id = ''item-1'', name = name (hd initialItems), price = replicate k CHR ''9''\<rparr>"
proof -
  have "list_all isDigit (replicate k CHR ''9'')"
    by (simp add: list_all_iff isDigit_def)
  then have "sanitizeDigits (replicate k CHR ''9'') = replicate k CHR ''9''"
    by (rule sanitizeDigits_id)
  then show ?thesis
    by (simp add: itemsAfter_def initialItems_def handlePriceChange_def)
qed

lemma priceValue_of_nines:
  "priceValue (computeItem (hd (itemsAfter [PriceChange ''item-1'' (replicate k CHR ''9'')]))) =
   toDouble (real (10 ^ k - 1))"
proof -
  have "list_all isDigit (replicate k CHR ''9'')"
    by (simp add: list_all_iff isDigit_def)
  then have "sanitizeDigits (replicate k CHR ''9'') = replicate k CHR ''9''"
    by (rule sanitizeDigits_id)
  then show ?thesis
    by (simp add: priceValue_double price_of_nines digits_value_decimal [symmetric]
        digits_value_nines)
qed

lemma overflow_310: "(2::real) ^ 1024 \<le> real (10 ^ 310 - 1)"
proof -
  have "(2::nat) ^ 1024 \<le> 10 ^ 310 - 1"
    by simp
  then have "real (2 ^ 1024) \<le> real (10 ^ 310 - 1)"
    by (rule iffD2 [OF of_nat_le_iff])
  then show ?thesis
    by (simp only: of_nat_power of_nat_numeral)
qed

text \<open>
  C10, as amended. After any sequence of name changes and price changes from the two
  initial items, every stored price is made of decimal digits only, and sanitizing it
  changes nothing. The numeric price is the double nearest to the number the stored price
  denotes: a natural number or \<open>+\<infinity>\<close>, never \<^verbatim>\<open>NaN\<close> and never negative; a natural
  number when the price denotes less than \<open>2 ^ 1023\<close>, and the denoted number itself up
  to \<open>2 ^ 53\<close>. A name change leaves every price as it was, and a price change stores
  the sanitized text in the items with the given id.
\<close>

theorem stored_prices_digits_only:
  "list_all (\<lambda>item. list_all isDigit (price item)) (itemsAfter events) \<and>
   list_all (\<lambda>item. sanitizeDigits (price item) = price item \<and>
                     priceValue (computeItem item) =
                       toDouble (real (decimal_value (price item))) \<and>
                     (priceValue (computeItem item) = PosInf \<or>
                      (\<exists>n::nat. priceValue (computeItem item) = Fin (real n))) \<and>
                     (decimal_value (price item) < 2 ^ 1023 \<longrightarrow>
                        (\<exists>n::nat. priceValue (computeItem item) = Fin (real n))) \<and>
                     (decimal_value (price item) \<le> 2 ^ 53 \<longrightarrow>
                        priceValue (computeItem item) = Fin (real (decimal_value (price item)))))
            (itemsAfter events) \<and>
   map price (handleNameChange i v items) = map price items \<and>
   map price (handlePriceChange i v items) =
     map (\<lambda>item. if item_id item = i then sanitizeDigits v else price item) items"
proof (intro conjI)
  show digits: "list_all (\<lambda>item. list_all isDigit (price item)) (itemsAfter events)"
    using itemsAfter_digits [of events] by (simp add: digitsOnlyPrices_def)
  have "sanitizeDigits (price item) = price item \<and>
        priceValue (computeItem item) = toDouble (real (decimal_value (price item))) \<and>
        (priceValue (computeItem item) = PosInf \<or>
         (\<exists>n::nat. priceValue (computeItem item) = Fin (real n))) \<and>
        (decimal_value (price item) < 2 ^ 1023 \<longrightarrow>
           (\<exists>n::nat. priceValue (computeItem item) = Fin (real n))) \<and>
        (decimal_value (price item) \<le> 2 ^ 53 \<longrightarrow>
           priceValue (computeItem item) = Fin (real (decimal_value (price item))))"
    if "list_all isDigit (price item)" for item
  proof -
    have same: "sanitizeDigits (price item) = price item"
      using that by (rule sanitizeDigits_id)
    have pv: "priceValue (computeItem item) = toDouble (real (decimal_value (price item)))"
      by (simp only: priceValue_double same)
    show ?thesis
      unfolding pv
      using same toDouble_nat_integral toDouble_nat_finite toDouble_nat_small by blast
  qed
  with digits show "list_all (\<lambda>item. sanitizeDigits (price item) = price item \<and>
                     priceValue (computeItem item) =
                       toDouble (real (decimal_value (price item))) \<and>
                     (priceValue (computeItem item) = PosInf \<or>
                      (\<exists>n::nat. priceValue (computeItem item) = Fin (real n))) \<and>
                     (decimal_value (price item) < 2 ^ 1023 \<longrightarrow>
                        (\<exists>n::nat. priceValue (computeItem item) = Fin (real n))) \<and>
                     (decimal_value (price item) \<le> 2 ^ 53 \<longrightarrow>
                        priceValue (computeItem item) = Fin (real (decimal_value (price item)))))
            (itemsAfter events)"
    unfolding list_all_iff by blast
  show "map price (handleNameChange i v items) = map price items"
    by (rule handleNameChange_price)
  show "map price (handlePriceChange i v items) =
     map (\<lambda>item. if item_id item = i then sanitizeDigits v else price item) items"
    by (rule handlePriceChange_price)
qed

theorem stored_prices_digits_only_witness:
  "map price (itemsAfter [PriceChange ''item-1'' ''1,200 yen'', NameChange ''item-2'' ''12ab'']) =
     [''1200'', ''888''] \<and>
   map (\<lambda>item. priceValue (computeItem item))
     (itemsAfter [PriceChange ''item-1'' ''1,200 yen'', NameChange ''item-2'' ''12ab'']) =
     [Fin 1200, Fin 888]"
proof -
  let ?events = "[PriceChange ''item-1'' ''1,200 yen'', NameChange ''item-2'' ''12ab'']"
  have prices: "map price (itemsAfter ?events) = [''1200'', ''888'']"
    by (simp add: itemsAfter_def initialItems_def handlePriceChange_def
        handleNameChange_def sanitizeDigits_filter isDigit_def)
  have d: "decimal_value ''1200'' = 1200" "decimal_value ''888'' = 888"
    by (simp_all add: digits_value_decimal [symmetric] digits_value_def digit_value_def)
  from stored_prices_digits_only [of ?events "''item-1''" "''x''" initialItems]
  have exact: "\<forall>item\<in>set (itemsAfter ?events).
      decimal_value (price item) \<le> 2 ^ 53 \<longrightarrow>
      priceValue (computeItem item) = Fin (real (decimal_value (price item)))"
    unfolding list_all_iff by blast
  have "priceValue (computeItem item) = Fin (real (decimal_value (price item)))"
    if "item \<in> set (itemsAfter ?events)" for item
  proof -
    from that have "price item \<in> set (map price (itemsAfter ?events))"
      by simp
    then have "price item = ''1200'' \<or> price item = ''888''"
      by (simp add: prices)
    then have "decimal_value (price item) \<le> 2 ^ 53"
      by (auto simp: d)
    with exact that show ?thesis
      by blast
  qed
  then have "map (\<lambda>item. priceValue (computeItem item)) (itemsAfter ?events) =
      map (\<lambda>p. Fin (real (decimal_value p))) (map price (itemsAfter ?events))"
    by simp
  then show ?thesis
    by (simp add: prices d)
qed

text \<open>
  A price change can store 310 nines. The stored price is made of digits only, and its
  numeric price is \<open>+\<infinity>\<close>, which is not an integer.
\<close>

theorem priceValue_infinite_counterexample:
  "list_all isDigit (price (hd (itemsAfter [PriceChange ''item-1'' (replicate 310 CHR ''9'')]))) \<and>
   priceValue (computeItem
     (hd (itemsAfter [PriceChange ''item-1'' (replicate 310 CHR ''9'')]))) = PosInf"
proof -
  have "priceValue (computeItem
     (hd (itemsAfter [PriceChange ''item-1'' (replicate 310 CHR ''9'')]))) = PosInf"
    by (simp only: priceValue_of_nines toDouble_overflow [OF overflow_310])
  moreover have "list_all isDigit
      (price (hd (itemsAfter [PriceChange ''item-1'' (replicate 310 CHR ''9'')])))"
    by (simp add: price_of_nines list_all_iff isDigit_def)
  ultimately show ?thesis
    by blast
qed

subsection \<open>Tax\<close>

lemma TAX_RATE_nearest: "toDouble (1 / 10) = Fin TAX_RATE"
  by (simp add: toDouble_def binaryExponent_def bitlength.simps pow2_def roundTiesToEven_def
      Let_def TAX_RATE_def)

lemma one_plus_TAX_RATE: "fl_add (Fin 1) (Fin TAX_RATE) = Fin taxMultiplier"
proof -
  have "toDouble (1 + TAX_RATE) =
    Fin (real_of_int (roundTiesToEven ((1 + TAX_RATE) / pow2 (int 0 - 52))) * pow2 (int 0 - 52))"
    by (rule toDouble_at) (simp_all add: TAX_RATE_def)
  then show ?thesis
    by (simp add: pow2_def roundTiesToEven_def Let_def TAX_RATE_def taxMultiplier_def)
qed

lemma getTaxIncluded_double:
  "0 < x \<Longrightarrow>
   getTaxIncluded (Fin x) = Math_round (toDouble (x * taxMultiplier))"
  unfolding getTaxIncluded_def one_plus_TAX_RATE by simp

text \<open>
  While the product stays below \<open>2 ^ 49\<close> its rounding error is at most \<open>1 / 32\<close>,
  and the multiplier exceeds 1.1 by \<open>4 / (10 * 2 ^ 52)\<close>: the two together stay below
  the tenth that separates \<open>P * 1.1\<close> from the next half. A half itself is a double, so
  the rounded product is not below it.
\<close>

lemma tax_product_rounds:
  fixes P :: nat
  assumes pos: "0 < P" and small: "P * 4953959590107546 < 2 ^ 101"
  shows "\<exists>y. toDouble (real P * taxMultiplier) = Fin y \<and>
             \<lfloor>y + 1 / 2\<rfloor> = int ((11 * P + 5) div 10)"
proof -
  define x :: real where "x = real P * (4953959590107546 / 2 ^ 52)"
  define q where "q = (11 * P + 5) div 10"
  have q: "10 * q \<le> 11 * P + 5" "11 * P + 5 \<le> 10 * q + 9"
    unfolding q_def by presburger+
  have Pr: "1 \<le> real P"
    using pos by simp
  have "P * 2 ^ 52 \<le> P * 4953959590107546"
    by simp
  with small have "P < 2 ^ 49"
    by simp
  then have Pup: "real P < 2 ^ 49"
    using of_nat_less_iff [where ?'a = real, of P "2 ^ 49"] by simp
  have split: "x = 11 * real P / 10 + 4 * real P / (10 * 2 ^ 52)"
    by (simp add: x_def field_simps)
  have x1: "1 \<le> x"
    using Pr by (simp add: split)
  have xlo: "11 * real P / 10 \<le> x"
    using Pr by (simp add: split)
  have xhi: "x < 11 * real P / 10 + 1 / 20"
    using Pup by (simp add: split)
  have "real (P * 4953959590107546) < 2 ^ 101"
    using of_nat_less_iff [where ?'a = real, of "P * 4953959590107546" "2 ^ 101"] small
    by simp
  then have x49: "x < 2 ^ 49"
    by (simp add: x_def field_simps)
  have qlo: "real q - 1 / 2 \<le> 11 * real P / 10"
    using of_nat_mono [OF q(1), where ?'a = real] by simp
  have qhi: "11 * real P / 10 \<le> real q + 4 / 10"
    using of_nat_mono [OF q(2), where ?'a = real] by simp
  define k where "k = nat (binaryExponent x)"
  have e: "binaryExponent x = int k"
    using binaryExponent_bounds(1) [OF x1] by (simp add: k_def)
  have "(2::real) ^ k \<le> x"
    using binaryExponent_bounds(2) [OF x1] by (simp add: k_def)
  with x49 have "(2::real) ^ k < 2 ^ 49"
    by linarith
  then have k: "k < 49"
    by (rule power_less_imp_less_exp [rotated]) simp
  define j where "j = 52 - k"
  have j: "4 \<le> j" "k + j = 52"
    using k by (simp_all add: j_def)
  have ulp: "pow2 (binaryExponent x - 52) = 1 / 2 ^ j"
    using k by (simp add: e pow2_def j_def nat_diff_distrib)
  define z where "z = roundTiesToEven (x * 2 ^ j)"
  define y where "y = real_of_int z / 2 ^ j"
  have "(2::real) ^ 4 \<le> 2 ^ j"
    using j(1) by (rule power_increasing) simp
  then have j16: "(16::real) \<le> 2 ^ j"
    by simp
  have close: "\<bar>real_of_int z - x * 2 ^ j\<bar> \<le> 1 / 2"
    unfolding z_def by (rule roundTiesToEven_close)
  have "\<bar>y - x\<bar> = \<bar>real_of_int z - x * 2 ^ j\<bar> / 2 ^ j"
    by (simp add: y_def field_simps abs_mult [symmetric] abs_divide)
  also have "\<dots> \<le> (1 / 2) / 2 ^ j"
    using close by (intro divide_right_mono) simp_all
  also have "\<dots> \<le> 1 / 32"
    using j16 by (simp add: field_simps)
  finally have near: "\<bar>y - x\<bar> \<le> 1 / 32" .
  have yhi: "y < real q + 1 / 2"
    using near xhi qhi by linarith
  have "real_of_int ((2 * int q - 1) * 2 ^ (j - 1)) = (real q - 1 / 2) * 2 ^ j"
  proof -
    have "(2::real) ^ j = 2 * 2 ^ (j - 1)"
      using j(1) by (cases j) simp_all
    then show ?thesis
      by (simp add: field_simps)
  qed
  also have "\<dots> \<le> x * 2 ^ j"
    using qlo xlo by (simp add: mult_right_mono)
  finally have "(2 * int q - 1) * 2 ^ (j - 1) \<le> z"
    unfolding z_def by (rule roundTiesToEven_ge)
  then have "real_of_int ((2 * int q - 1) * 2 ^ (j - 1)) \<le> real_of_int z"
    by (rule iffD2 [OF of_int_le_iff])
  then have "(real q - 1 / 2) * 2 ^ j \<le> real_of_int z"
    using \<open>real_of_int ((2 * int q - 1) * 2 ^ (j - 1)) = (real q - 1 / 2) * 2 ^ j\<close>
    by simp
  then have ylo: "real q - 1 / 2 \<le> y"
    by (simp add: y_def field_simps)
  have fl: "\<lfloor>y + 1 / 2\<rfloor> = int q"
    using ylo yhi by (intro floor_unique) simp_all
  have "y < real q + 1 / 2"
    by (rule yhi)
  also have "\<dots> < 2 ^ 51"
    using qhi qlo Pup by simp
  also have "\<dots> \<le> (2::real) ^ 1024"
    by (rule power_increasing) simp_all
  finally have fin: "\<not> 2 ^ 1024 \<le> y"
    by simp
  have "toDouble x = Fin y"
    using fin by (simp add: toDouble_ge_one [OF x1] ulp Let_def y_def z_def)
  with fl show ?thesis
    unfolding x_def q_def taxMultiplier_def by blast
qed

text \<open>The eight prices from there to the bound, and the two of the counterexample.\<close>

lemma tax_product_466:
  "toDouble (511772684928466 * taxMultiplier) = Fin (4503599627370501 / 8)"
proof -
  have "toDouble (511772684928466 * taxMultiplier) =
    Fin (real_of_int (roundTiesToEven
           (511772684928466 * taxMultiplier / pow2 (int 49 - 52))) *
         pow2 (int 49 - 52))"
    by (rule toDouble_at) (simp_all add: taxMultiplier_def)
  then show ?thesis
    by (simp add: pow2_def roundTiesToEven_def Let_def taxMultiplier_def)
qed

lemma tax_product_467:
  "toDouble (511772684928467 * taxMultiplier) = Fin (2251799813685255 / 4)"
proof -
  have "toDouble (511772684928467 * taxMultiplier) =
    Fin (real_of_int (roundTiesToEven
           (511772684928467 * taxMultiplier / pow2 (int 49 - 52))) *
         pow2 (int 49 - 52))"
    by (rule toDouble_at) (simp_all add: taxMultiplier_def)
  then show ?thesis
    by (simp add: pow2_def roundTiesToEven_def Let_def taxMultiplier_def)
qed

lemma tax_product_468:
  "toDouble (511772684928468 * taxMultiplier) = Fin (4503599627370519 / 8)"
proof -
  have "toDouble (511772684928468 * taxMultiplier) =
    Fin (real_of_int (roundTiesToEven
           (511772684928468 * taxMultiplier / pow2 (int 49 - 52))) *
         pow2 (int 49 - 52))"
    by (rule toDouble_at) (simp_all add: taxMultiplier_def)
  then show ?thesis
    by (simp add: pow2_def roundTiesToEven_def Let_def taxMultiplier_def)
qed

lemma tax_product_469:
  "toDouble (511772684928469 * taxMultiplier) = Fin (562949953421316)"
proof -
  have "toDouble (511772684928469 * taxMultiplier) =
    Fin (real_of_int (roundTiesToEven
           (511772684928469 * taxMultiplier / pow2 (int 49 - 52))) *
         pow2 (int 49 - 52))"
    by (rule toDouble_at) (simp_all add: taxMultiplier_def)
  then show ?thesis
    by (simp add: pow2_def roundTiesToEven_def Let_def taxMultiplier_def)
qed

lemma tax_product_470:
  "toDouble (511772684928470 * taxMultiplier) = Fin (562949953421317)"
proof -
  have "toDouble (511772684928470 * taxMultiplier) =
    Fin (real_of_int (roundTiesToEven
           (511772684928470 * taxMultiplier / pow2 (int 49 - 52))) *
         pow2 (int 49 - 52))"
    by (rule toDouble_at) (simp_all add: taxMultiplier_def)
  then show ?thesis
    by (simp add: pow2_def roundTiesToEven_def Let_def taxMultiplier_def)
qed

lemma tax_product_471:
  "toDouble (511772684928471 * taxMultiplier) = Fin (4503599627370545 / 8)"
proof -
  have "toDouble (511772684928471 * taxMultiplier) =
    Fin (real_of_int (roundTiesToEven
           (511772684928471 * taxMultiplier / pow2 (int 49 - 52))) *
         pow2 (int 49 - 52))"
    by (rule toDouble_at) (simp_all add: taxMultiplier_def)
  then show ?thesis
    by (simp add: pow2_def roundTiesToEven_def Let_def taxMultiplier_def)
qed

lemma tax_product_472:
  "toDouble (511772684928472 * taxMultiplier) = Fin (2251799813685277 / 4)"
proof -
  have "toDouble (511772684928472 * taxMultiplier) =
    Fin (real_of_int (roundTiesToEven
           (511772684928472 * taxMultiplier / pow2 (int 49 - 52))) *
         pow2 (int 49 - 52))"
    by (rule toDouble_at) (simp_all add: taxMultiplier_def)
  then show ?thesis
    by (simp add: pow2_def roundTiesToEven_def Let_def taxMultiplier_def)
qed

lemma tax_product_473:
  "toDouble (511772684928473 * taxMultiplier) = Fin (4503599627370563 / 8)"
proof -
  have "toDouble (511772684928473 * taxMultiplier) =
    Fin (real_of_int (roundTiesToEven
           (511772684928473 * taxMultiplier / pow2 (int 49 - 52))) *
         pow2 (int 49 - 52))"
    by (rule toDouble_at) (simp_all add: taxMultiplier_def)
  then show ?thesis
    by (simp add: pow2_def roundTiesToEven_def Let_def taxMultiplier_def)
qed

lemma tax_product_474:
  "toDouble (511772684928474 * taxMultiplier) = Fin (1125899906842643 / 2)"
proof -
  have "toDouble (511772684928474 * taxMultiplier) =
    Fin (real_of_int (roundTiesToEven
           (511772684928474 * taxMultiplier / pow2 (int 49 - 52))) *
         pow2 (int 49 - 52))"
    by (rule toDouble_at) (simp_all add: taxMultiplier_def)
  then show ?thesis
    by (simp add: pow2_def roundTiesToEven_def Let_def taxMultiplier_def)
qed

lemma tax_product_004:
  "toDouble (1000000000000004 * taxMultiplier) = Fin (2200000000000009 / 2)"
proof -
  have "toDouble (1000000000000004 * taxMultiplier) =
    Fin (real_of_int (roundTiesToEven
           (1000000000000004 * taxMultiplier / pow2 (int 49 - 52))) *
         pow2 (int 49 - 52))"
    by (rule toDouble_at) (simp_all add: taxMultiplier_def)
  then show ?thesis
    by (simp add: pow2_def roundTiesToEven_def Let_def taxMultiplier_def)
qed

lemma tax_product_rounds_top:
  fixes P :: nat
  assumes "511772684928466 \<le> P" and "P < 511772684928474"
  shows "\<exists>y. toDouble (real P * taxMultiplier) = Fin y \<and>
             \<lfloor>y + 1 / 2\<rfloor> = int ((11 * P + 5) div 10)"
proof -
  from assms consider "P = 511772684928466" | "P = 511772684928467" | "P = 511772684928468" | "P = 511772684928469" | "P = 511772684928470" | "P = 511772684928471" | "P = 511772684928472" | "P = 511772684928473"
    by linarith
  then show ?thesis
  proof cases
    case 1
    then show ?thesis
      by (intro exI [of _ "4503599627370501 / 8"]) (simp add: tax_product_466)
  next
    case 2
    then show ?thesis
      by (intro exI [of _ "2251799813685255 / 4"]) (simp add: tax_product_467)
  next
    case 3
    then show ?thesis
      by (intro exI [of _ "4503599627370519 / 8"]) (simp add: tax_product_468)
  next
    case 4
    then show ?thesis
      by (intro exI [of _ "562949953421316"]) (simp add: tax_product_469)
  next
    case 5
    then show ?thesis
      by (intro exI [of _ "562949953421317"]) (simp add: tax_product_470)
  next
    case 6
    then show ?thesis
      by (intro exI [of _ "4503599627370545 / 8"]) (simp add: tax_product_471)
  next
    case 7
    then show ?thesis
      by (intro exI [of _ "2251799813685277 / 4"]) (simp add: tax_product_472)
  next
    case 8
    then show ?thesis
      by (intro exI [of _ "4503599627370563 / 8"]) (simp add: tax_product_473)
  qed
qed

lemma tax_rounds:
  fixes P :: nat
  assumes "0 < P" and "P < 511772684928474"
  shows "\<exists>y. toDouble (real P * taxMultiplier) = Fin y \<and>
             \<lfloor>y + 1 / 2\<rfloor> = int ((11 * P + 5) div 10)"
proof (cases "P < 511772684928466")
  case True
  then have "P * 4953959590107546 \<le> 511772684928465 * 4953959590107546"
    by simp
  also have "\<dots> < 2 ^ 101"
    by simp
  finally show ?thesis
    using assms(1) by (intro tax_product_rounds)
next
  case False
  with assms(2) show ?thesis
    by (intro tax_product_rounds_top) simp_all
qed

lemma round_eleven_tenths: "round (real P * 1.1) = int ((11 * P + 5) div 10)"
proof -
  have "real P * 1.1 + 1 / 2 = real_of_int (int (11 * P + 5)) / real_of_int 10"
    by (simp add: field_simps)
  then have "\<lfloor>real P * 1.1 + 1 / 2\<rfloor> = int (11 * P + 5) div 10"
    by (simp only: floor_divide_of_int_eq)
  then show ?thesis
    by (simp add: round_def zdiv_int)
qed

text \<open>
  C3, as amended. For a price \<open>P\<close> that is a natural number below 511772684928474 the
  tax-inclusive amount is \<open>round (P * 1.1)\<close> when \<open>P > 0\<close> and 0 when \<open>P = 0\<close>. In
  integers it is \<open>(11 * P + 5) div 10\<close>, and it is never below the price.
\<close>

theorem getTaxIncluded_rounds:
  assumes "P < 511772684928474"
  shows "getTaxIncluded (Fin (real P)) =
           Fin (real_of_int (if 0 < P then round (real P * 1.1) else 0)) \<and>
         getTaxIncluded (Fin (real P)) = Fin (real ((11 * P + 5) div 10)) \<and>
         js_le (Fin (real P)) (getTaxIncluded (Fin (real P)))"
proof -
  have closed: "getTaxIncluded (Fin (real P)) = Fin (real ((11 * P + 5) div 10))"
  proof (cases "0 < P")
    case True
    from tax_rounds [OF True assms] obtain y where
      y: "toDouble (real P * taxMultiplier) = Fin y"
         "\<lfloor>y + 1 / 2\<rfloor> = int ((11 * P + 5) div 10)"
      by blast
    have "getTaxIncluded (Fin (real P)) = Math_round (Fin y)"
      using True by (simp add: getTaxIncluded_double y(1))
    also have "\<dots> = Fin (real_of_int (int ((11 * P + 5) div 10)))"
      by (simp only: Math_round.simps y(2))
    finally show ?thesis
      by simp
  next
    case False
    then show ?thesis
      by (simp add: getTaxIncluded_def)
  qed
  have "P \<le> (11 * P + 5) div 10"
    by presburger
  then have "js_le (Fin (real P)) (getTaxIncluded (Fin (real P)))"
    by (simp add: closed)
  moreover have "getTaxIncluded (Fin (real P)) =
      Fin (real_of_int (if 0 < P then round (real P * 1.1) else 0))"
    unfolding closed round_eleven_tenths by simp
  ultimately show ?thesis
    using closed by blast
qed

theorem getTaxIncluded_rounds_witness:
  "getTaxIncluded (Fin 980) = Fin 1078 \<and> getTaxIncluded (Fin 888) = Fin 977 \<and>
   getTaxIncluded (Fin 5) = Fin 6 \<and> getTaxIncluded (Fin 0) = Fin 0 \<and>
   round ((888::real) * 1.1) = 977"
proof -
  have small: "(980::nat) < 511772684928474" "(888::nat) < 511772684928474"
    "(5::nat) < 511772684928474" "(0::nat) < 511772684928474"
    by simp_all
  show ?thesis
    using getTaxIncluded_rounds [OF small(1)] getTaxIncluded_rounds [OF small(2)]
      getTaxIncluded_rounds [OF small(3)] getTaxIncluded_rounds [OF small(4)]
    by (simp add: round_def)
qed

text \<open>
  The bound is the least price at which the product of doubles rounds the other way:
  at 511772684928474 the code gives 562949953421322 and \<open>round (P * 1.1)\<close> is
  562949953421321. The same happens at 1000000000000004.
\<close>

theorem getTaxIncluded_double_rounding_counterexample:
  "getTaxIncluded (Fin 511772684928474) = Fin 562949953421322 \<and>
   round ((511772684928474::real) * 1.1) = 562949953421321 \<and>
   getTaxIncluded (Fin 1000000000000004) = Fin 1100000000000005 \<and>
   round ((1000000000000004::real) * 1.1) = 1100000000000004"
  by (simp add: getTaxIncluded_double tax_product_474 tax_product_004 round_def)

subsection \<open>The export file name\<close>

lemma digit_char_cases:
  "d < 10 \<Longrightarrow> digit_char d \<in> set ''0123456789''"
proof -
  assume "d < 10"
  then have "d \<in> {0, 1, 2, 3, 4, 5, 6, 7, 8, 9}" by auto
  then show ?thesis
    by (auto simp: digit_char_def char_of_eq_iff)
qed

lemma length_pad_digits: "length (pad_digits k n) = k"
  by (induction k arbitrary: n) simp_all

lemma digit_char_isDigit: "isDigit (digit_char (n mod 10))"
  unfolding isDigit_def by (rule digit_char_cases) simp

lemma pad_digits_isDigit: "list_all isDigit (pad_digits k n)"
  by (induction k arbitrary: n) (simp_all add: digit_char_isDigit)

lemma pad_digits_2: "pad_digits 2 n = [digit_char (n div 10 mod 10), digit_char (n mod 10)]"
  by (simp add: numeral_2_eq_2)

lemma pad_digits_3:
  "pad_digits 3 n =
   [digit_char (n div 10 div 10 mod 10), digit_char (n div 10 mod 10), digit_char (n mod 10)]"
  by (simp add: numeral_3_eq_3)

lemma pad_digits_4:
  "pad_digits 4 n =
   [digit_char (n div 10 div 10 div 10 mod 10), digit_char (n div 10 div 10 mod 10),
    digit_char (n div 10 mod 10), digit_char (n mod 10)]"
proof -
  have "pad_digits (Suc (Suc (Suc (Suc 0)))) n =
        [digit_char (n div 10 div 10 div 10 mod 10), digit_char (n div 10 div 10 mod 10),
         digit_char (n div 10 mod 10), digit_char (n mod 10)]"
    by simp
  moreover have "(4::nat) = Suc (Suc (Suc (Suc 0)))"
    by simp
  ultimately show ?thesis
    by (simp only:)
qed

lemma isSeparator_chars:
  "isSeparator CHR ''-''" "isSeparator CHR '':''" "isSeparator CHR ''T''"
  "\<not> isSeparator CHR ''.''" "\<not> isSeparator CHR ''Z''"
  by (simp_all add: isSeparator_def)

lemma isDigit_not_separator: "isDigit c \<Longrightarrow> \<not> isSeparator c"
  by (auto simp: isDigit_def isSeparator_def)

lemma strip_pad_digits:
  "filter (\<lambda>c. \<not> isSeparator c) (pad_digits k n) = pad_digits k n"
  using pad_digits_isDigit [of k n]
  by (auto simp: filter_id_conv list_all_iff dest: isDigit_not_separator)

lemma toISOString_four_digit_year:
  assumes "0 \<le> year now" and "year now \<le> 9999"
  shows "replaceAll_class isSeparator [] (toISOString now) =
         pad_digits 4 (nat (year now)) @ pad_digits 2 (month now) @ pad_digits 2 (day now) @
         pad_digits 2 (hours now) @ pad_digits 2 (minutes now) @
         (pad_digits 2 (seconds now) @ ''.'' @ pad_digits 3 (milliseconds now) @ ''Z'')"
  using assms
  by (simp add: replaceAll_class_delete toISOString_def strip_pad_digits isSeparator_chars)

text \<open>
  C9. For an instant whose year has four digits (0 to 9999, as every current time has) the
  download is named \<open>menu_T.png\<close>, where \<open>T\<close> is the first 12 characters of the ISO
  timestamp without its separators: the four digits of the year and the two digits each
  of the month, the day, the hours and the minutes. \<open>T\<close> has length 12 and is made of
  digits only.
\<close>

theorem downloadName_timestamp:
  assumes "0 \<le> year now" and "year now \<le> 9999"
  shows "downloadName now = ''menu_'' @ timestamp now @ ''.png'' \<and>
         timestamp now = pad_digits 4 (nat (year now)) @ pad_digits 2 (month now) @
           pad_digits 2 (day now) @ pad_digits 2 (hours now) @ pad_digits 2 (minutes now) \<and>
         timestamp now = take 12 (filter (\<lambda>c. \<not> isSeparator c) (toISOString now)) \<and>
         length (timestamp now) = 12 \<and>
         list_all isDigit (timestamp now)"
proof -
  have stamp: "timestamp now = pad_digits 4 (nat (year now)) @ pad_digits 2 (month now) @
           pad_digits 2 (day now) @ pad_digits 2 (hours now) @ pad_digits 2 (minutes now)"
    unfolding timestamp_def toISOString_four_digit_year [OF assms]
    by (simp add: length_pad_digits)
  have "length (timestamp now) = 12"
    unfolding stamp by (simp add: length_pad_digits)
  moreover have "list_all isDigit (timestamp now)"
    unfolding stamp by (simp add: pad_digits_isDigit)
  moreover have "timestamp now = take 12 (filter (\<lambda>c. \<not> isSeparator c) (toISOString now))"
    by (simp add: timestamp_def replaceAll_class_delete)
  ultimately show ?thesis
    using stamp by (simp add: downloadName_def)
qed

theorem downloadName_timestamp_witness:
  "toISOString \<lparr>year = 2026, month = 11, day = 2, hours = 23, minutes = 28, seconds = 5,
                milliseconds = 123\<rparr> = ''2026-11-02T23:28:05.123Z'' \<and>
   downloadName \<lparr>year = 2026, month = 11, day = 2, hours = 23, minutes = 28, seconds = 5,
                 milliseconds = 123\<rparr> = ''menu_202611022328.png''"
proof -
  let ?now = "\<lparr>year = 2026, month = 11, day = 2, hours = 23, minutes = 28, seconds = 5,
                milliseconds = 123\<rparr>"
  have lo: "0 \<le> year ?now" and hi: "year ?now \<le> 9999"
    by simp_all
  show ?thesis
    using downloadName_timestamp [OF lo hi]
    by (simp add: toISOString_def pad_digits_2 pad_digits_3 pad_digits_4 digit_char_def
        char_of_eq_iff)
qed

subsection \<open>The export adapter\<close>

text \<open>
  C7. A run of \<open>handleDownload\<close> on a page element that is present ends with the
  inline style the element had before, whether the capture is rejected or resolved; the
  \<^verbatim>\<open>try\<close> block leaves the capture style in place, so the last step is what restores
  it. When the capture is rejected the alert is shown and no link is created; when it
  resolves no alert is shown and one link is clicked, named after the timestamp.
\<close>

theorem handleDownload_restores_style:
  assumes "previewStyle state = Some style"
  shows "previewStyle (handleDownload captured now state) = Some style \<and>
         previewStyle (snd (handleDownload_try captured now style state)) = Some (captureStyle style) \<and>
         (case captured of
            Rejected error \<Rightarrow>
              alerts (handleDownload captured now state) = alerts state @ [exportFailedMessage] \<and>
              clickedLinks (handleDownload captured now state) = clickedLinks state
          | Resolved dataUrl \<Rightarrow>
              alerts (handleDownload captured now state) = alerts state \<and>
              clickedLinks (handleDownload captured now state) =
                clickedLinks state @ [(downloadName now, dataUrl)])"
  using assms
  by (cases captured) (simp_all add: handleDownload_def handleDownload_try_def)

theorem handleDownload_restores_style_witness:
  "handleDownload (Rejected ''tainted canvas'')
     \<lparr>year = 2026, month = 11, day = 2, hours = 23, minutes = 28, seconds = 5, milliseconds = 0\<rparr>
     \<lparr>previewStyle = Some [(''transform'', ''scale(0.5)''), (''transform-origin'', ''top center'')],
      consoleErrors = [], alerts = [], clickedLinks = []\<rparr> =
   \<lparr>previewStyle = Some [(''transform'', ''scale(0.5)''), (''transform-origin'', ''top center'')],
    consoleErrors = [''Download Error:tainted canvas''], alerts = [exportFailedMessage],
    clickedLinks = []\<rparr> \<and>
   captureStyle [(''transform'', ''scale(0.5)''), (''transform-origin'', ''top center'')] =
     [(''transform'', ''none''), (''transform-origin'', ''top center''), (''transition'', ''none''),
      (''position'', ''fixed''), (''top'', ''0''), (''left'', ''0''), (''width'', ''794px''),
      (''height'', ''1123px''), (''z-index'', ''9999''), (''background-color'', ''#ffffff'')]"
  using handleDownload_restores_style
    [of "\<lparr>previewStyle = Some [(''transform'', ''scale(0.5)''), (''transform-origin'', ''top center'')],
      consoleErrors = [], alerts = [], clickedLinks = []\<rparr>"
      "[(''transform'', ''scale(0.5)''), (''transform-origin'', ''top center'')]"
      "Rejected ''tainted canvas''"
      "\<lparr>year = 2026, month = 11, day = 2, hours = 23, minutes = 28, seconds = 5, milliseconds = 0\<rparr>"]
  by (simp add: handleDownload_def handleDownload_try_def captureStyle_def)

subsection \<open>The auto-fit text sizer\<close>

lemma fit_loop_result:
  "(fit_loop h A low high best = best \<and>
      (low \<le> high \<longrightarrow> \<not> js_le (Fin (real_of_int (h low))) A)) \<or>
   (low \<le> fit_loop h A low high best \<and> fit_loop h A low high best \<le> high \<and>
      js_le (Fin (real_of_int (h (fit_loop h A low high best)))) A \<and>
      (fit_loop h A low high best = high \<or>
       \<not> js_le (Fin (real_of_int (h (fit_loop h A low high best + 1)))) A))"
proof (induction h A low high best rule: fit_loop.induct)
  case (1 h A low high best)
  let ?mid = "(low + high) div 2"
  show ?case
  proof (cases "low \<le> high")
    case False
    then show ?thesis
      by (simp add: fit_loop.simps [of h A low high best])
  next
    case True
    then have mid: "low \<le> ?mid" "?mid \<le> high"
      by simp_all
    show ?thesis
    proof (cases "js_le (Fin (real_of_int (h ?mid))) A")
      case fits: True
      have step: "fit_loop h A low high best = fit_loop h A (?mid + 1) high ?mid"
        using True fits by (simp add: fit_loop.simps [of h A low high best] Let_def)
      from "1.IH"(1) [OF True refl fits]
      show ?thesis
        unfolding step using mid fits by (cases "?mid + 1 \<le> high") auto
    next
      case fails: False
      have step: "fit_loop h A low high best = fit_loop h A low (?mid - 1) best"
        using True fails by (simp add: fit_loop.simps [of h A low high best] Let_def)
      from "1.IH"(2) [OF True refl fails]
      show ?thesis
      proof (elim disjE conjE)
        assume r: "fit_loop h A low (?mid - 1) best = best"
          and probe: "low \<le> ?mid - 1 \<longrightarrow> \<not> js_le (Fin (real_of_int (h low))) A"
        have "\<not> js_le (Fin (real_of_int (h low))) A"
        proof (cases "low \<le> ?mid - 1")
          case True
          with probe show ?thesis by simp
        next
          case False
          with mid have "?mid = low" by linarith
          with fails show ?thesis by simp
        qed
        with r show ?thesis by (simp add: step)
      next
        let ?r = "fit_loop h A low (?mid - 1) best"
        assume a: "low \<le> ?r" "?r \<le> ?mid - 1" "js_le (Fin (real_of_int (h ?r))) A"
          and "?r = ?mid - 1"
        then have "?r + 1 = ?mid" by simp
        with fails have "\<not> js_le (Fin (real_of_int (h (?r + 1)))) A" by simp
        with a mid show ?thesis by (auto simp: step)
      next
        let ?r = "fit_loop h A low (?mid - 1) best"
        assume a: "low \<le> ?r" "?r \<le> ?mid - 1" "js_le (Fin (real_of_int (h ?r))) A"
          and "\<not> js_le (Fin (real_of_int (h (?r + 1)))) A"
        with mid show ?thesis by (auto simp: step)
      qed
    qed
  qed
qed

lemma js_le_Fin_mono: "a \<le> b \<Longrightarrow> js_le (Fin b) A \<Longrightarrow> js_le (Fin a) A"
  by (cases A) simp_all

lemma fitsAt_mono:
  "mono (scrollHeight box) \<Longrightarrow> s \<le> t \<Longrightarrow> fitsAt box t \<Longrightarrow> fitsAt box s"
  unfolding fitsAt_def
  by (rule js_le_Fin_mono [of "real_of_int (scrollHeight box s)" "real_of_int (scrollHeight box t)"])
    (simp_all add: monoD)

lemma fit_runs:
  "\<not> falsy (availableHeightOf box) \<Longrightarrow> \<not> js_le (availableHeightOf box) (Fin 0) \<Longrightarrow>
   fit min_size max_size (Some box) fontSize =
   Some (fit_loop (scrollHeight box) (availableHeightOf box) min_size max_size min_size)"
  by (simp add: fit_def Let_def)

lemma fit_skips:
  "falsy (availableHeightOf box) \<or> js_le (availableHeightOf box) (Fin 0) \<Longrightarrow>
   fit min_size max_size (Some box) fontSize = fontSize"
  by (auto simp: fit_def Let_def)

text \<open>
  C1, as amended. Let the height of the text be monotonically non-decreasing in the font
  size. When the available height is \<^verbatim>\<open>NaN\<close>, zero or negative, \<open>fit\<close> leaves the font
  size as it was. Otherwise it applies a size \<open>S\<close>: if some size of the range fits,
  \<open>S\<close> is in the range and fits, \<open>S\<close> is the maximum or \<open>S + 1\<close> does not fit, and no
  size of the range that fits is larger; if no size of the range fits, \<open>S\<close> is the
  minimum.
\<close>

theorem fit_applies_largest_fitting_size:
  assumes mono: "mono (scrollHeight box)"
  shows
    "(falsy (availableHeightOf box) \<or> js_le (availableHeightOf box) (Fin 0) \<longrightarrow>
        fit min_size max_size (Some box) fontSize = fontSize) \<and>
     (\<not> falsy (availableHeightOf box) \<and> \<not> js_le (availableHeightOf box) (Fin 0) \<longrightarrow>
        (\<exists>S. fit min_size max_size (Some box) fontSize = Some S \<and>
           ((\<exists>s. min_size \<le> s \<and> s \<le> max_size \<and> fitsAt box s) \<longrightarrow>
              min_size \<le> S \<and> S \<le> max_size \<and> fitsAt box S \<and>
              (S = max_size \<or> \<not> fitsAt box (S + 1)) \<and>
              (\<forall>s. min_size \<le> s \<and> s \<le> max_size \<and> fitsAt box s \<longrightarrow> s \<le> S)) \<and>
           ((\<forall>s. min_size \<le> s \<and> s \<le> max_size \<longrightarrow> \<not> fitsAt box s) \<longrightarrow> S = min_size)))"
proof (intro conjI impI)
  assume "falsy (availableHeightOf box) \<or> js_le (availableHeightOf box) (Fin 0)"
  then show "fit min_size max_size (Some box) fontSize = fontSize"
    by (rule fit_skips)
next
  assume "\<not> falsy (availableHeightOf box) \<and> \<not> js_le (availableHeightOf box) (Fin 0)"
  then have run: "fit min_size max_size (Some box) fontSize =
      Some (fit_loop (scrollHeight box) (availableHeightOf box) min_size max_size min_size)"
    by (simp add: fit_runs)
  define S where "S = fit_loop (scrollHeight box) (availableHeightOf box) min_size max_size min_size"
  have result:
    "(S = min_size \<and> (min_size \<le> max_size \<longrightarrow> \<not> fitsAt box min_size)) \<or>
     (min_size \<le> S \<and> S \<le> max_size \<and> fitsAt box S \<and> (S = max_size \<or> \<not> fitsAt box (S + 1)))"
    unfolding S_def fitsAt_def
    by (rule fit_loop_result)
  have some: "min_size \<le> S \<and> S \<le> max_size \<and> fitsAt box S \<and>
      (S = max_size \<or> \<not> fitsAt box (S + 1)) \<and>
      (\<forall>s. min_size \<le> s \<and> s \<le> max_size \<and> fitsAt box s \<longrightarrow> s \<le> S)"
    if ex: "\<exists>s. min_size \<le> s \<and> s \<le> max_size \<and> fitsAt box s"
  proof -
    from ex obtain s where s: "min_size \<le> s" "s \<le> max_size" "fitsAt box s"
      by blast
    then have "fitsAt box min_size"
      using fitsAt_mono [OF mono] by blast
    with s result have found: "min_size \<le> S" "S \<le> max_size" "fitsAt box S"
      "S = max_size \<or> \<not> fitsAt box (S + 1)"
      by auto
    have "t \<le> S" if t: "min_size \<le> t" "t \<le> max_size" "fitsAt box t" for t
    proof (rule ccontr)
      assume "\<not> t \<le> S"
      then have above: "S + 1 \<le> t" by simp
      then have "fitsAt box (S + 1)"
        using fitsAt_mono [OF mono] t(3) by blast
      with found(4) have "S = max_size" by simp
      with above t(2) show False by simp
    qed
    with found show ?thesis by blast
  qed
  have none: "S = min_size"
    if "\<forall>s. min_size \<le> s \<and> s \<le> max_size \<longrightarrow> \<not> fitsAt box s"
    using that result by blast
  show "\<exists>S. fit min_size max_size (Some box) fontSize = Some S \<and>
           ((\<exists>s. min_size \<le> s \<and> s \<le> max_size \<and> fitsAt box s) \<longrightarrow>
              min_size \<le> S \<and> S \<le> max_size \<and> fitsAt box S \<and>
              (S = max_size \<or> \<not> fitsAt box (S + 1)) \<and>
              (\<forall>s. min_size \<le> s \<and> s \<le> max_size \<and> fitsAt box s \<longrightarrow> s \<le> S)) \<and>
           ((\<forall>s. min_size \<le> s \<and> s \<le> max_size \<longrightarrow> \<not> fitsAt box s) \<longrightarrow> S = min_size)"
    using run some none unfolding S_def [symmetric] by blast
qed

lemma fit_loop_unroll:
  "low \<le> high \<Longrightarrow> js_le (Fin (real_of_int (h ((low + high) div 2)))) A \<Longrightarrow>
   fit_loop h A low high best = fit_loop h A ((low + high) div 2 + 1) high ((low + high) div 2)"
  "low \<le> high \<Longrightarrow> \<not> js_le (Fin (real_of_int (h ((low + high) div 2)))) A \<Longrightarrow>
   fit_loop h A low high best = fit_loop h A low ((low + high) div 2 - 1) best"
  "\<not> low \<le> high \<Longrightarrow> fit_loop h A low high best = best"
  by (simp_all add: fit_loop.simps [of h A low high best] Let_def)

theorem fit_applies_largest_fitting_size_witness:
  "mono (\<lambda>px::int. 2 * px) \<and>
   fit 48 220 (Some \<lparr>clientHeight = 200, paddingTop = Fin 10, paddingBottom = Fin 10,
                      scrollHeight = \<lambda>px. 2 * px\<rparr>) None = Some 90 \<and>
   fitsAt \<lparr>clientHeight = 200, paddingTop = Fin 10, paddingBottom = Fin 10,
           scrollHeight = \<lambda>px. 2 * px\<rparr> 90 \<and>
   \<not> fitsAt \<lparr>clientHeight = 200, paddingTop = Fin 10, paddingBottom = Fin 10,
             scrollHeight = \<lambda>px. 2 * px\<rparr> 91"
proof -
  let ?box = "\<lparr>clientHeight = 200, paddingTop = Fin 10, paddingBottom = Fin 10,
               scrollHeight = \<lambda>px::int. 2 * px\<rparr>"
  have m: "mono (scrollHeight ?box)"
    by (simp add: mono_def)
  have A: "availableHeightOf ?box = Fin 180"
    by (simp add: availableHeightOf_def js_sub_def)
  have "fit_loop (\<lambda>px. 2 * px) (Fin 180) 48 220 48 = 90"
    by (simp add: fit_loop_unroll)
  then have "fit 48 220 (Some ?box) None = Some 90"
    by (simp add: fit_def A falsy_def)
  then show ?thesis
    using fit_applies_largest_fitting_size [OF m, of 48 220 None]
    by (simp add: fitsAt_def A mono_def)
qed

text \<open>
  With no available height nothing is applied: the font size stays at 100, which is not
  the minimum and does not fit. With an available height of 10 and a text as high as its
  font size, no size from 48 to 220 fits: the size applied is 48, and it does not fit.
\<close>

theorem fit_nothing_fits_counterexample:
  "mono (id :: int \<Rightarrow> int) \<and>
   fit 48 220 (Some \<lparr>clientHeight = 0, paddingTop = Fin 0, paddingBottom = Fin 0,
                      scrollHeight = id\<rparr>) (Some 100) = Some 100 \<and>
   \<not> fitsAt \<lparr>clientHeight = 0, paddingTop = Fin 0, paddingBottom = Fin 0,
             scrollHeight = id\<rparr> 100 \<and>
   fit 48 220 (Some \<lparr>clientHeight = 10, paddingTop = Fin 0, paddingBottom = Fin 0,
                      scrollHeight = id\<rparr>) None = Some 48 \<and>
   \<not> fitsAt \<lparr>clientHeight = 10, paddingTop = Fin 0, paddingBottom = Fin 0,
             scrollHeight = id\<rparr> 48"
proof -
  let ?flat = "\<lparr>clientHeight = 0, paddingTop = Fin 0, paddingBottom = Fin 0,
                scrollHeight = id :: int \<Rightarrow> int\<rparr>"
  let ?box = "\<lparr>clientHeight = 10, paddingTop = Fin 0, paddingBottom = Fin 0,
               scrollHeight = id :: int \<Rightarrow> int\<rparr>"
  have Z: "availableHeightOf ?flat = Fin 0"
    by (simp add: availableHeightOf_def js_sub_def)
  have A: "availableHeightOf ?box = Fin 10"
    by (simp add: availableHeightOf_def js_sub_def)
  have skipped: "fit 48 220 (Some ?flat) (Some 100) = Some 100"
    by (simp add: fit_def Z falsy_def)
  have "fit_loop id (Fin 10) 48 220 48 = 48"
    by (simp add: fit_loop_unroll)
  then have "fit 48 220 (Some ?box) None = Some 48"
    by (simp add: fit_def A falsy_def)
  with skipped show ?thesis
    by (simp add: fitsAt_def A Z mono_def)
qed

subsection \<open>The page scale fitter\<close>

lemma Math_min_Fin: "Math_min (Fin a) (Fin b) = Fin (min a b)"
  by (simp add: Math_min_def min_def)

lemma scaleFor_Fin:
  "scaleFor (Fin W) (Fin H) =
   Fin (if 0 < min 1 (min (W / 794) (H / 1123)) then min 1 (min (W / 794) (H / 1123)) else 1)"
  by (simp add: scaleFor_def js_div_const_def Math_min3_def Math_min_Fin Number_isFinite_def
      PAGE_WIDTH_def PAGE_HEIGHT_def Let_def)

lemma scaleFor_NaN: "scaleFor NaN H = Fin 1" "scaleFor W NaN = Fin 1"
  by (simp_all add: scaleFor_def js_div_const_def Math_min3_def Math_min_def
      Number_isFinite_def Let_def split: number.splits)

lemma scaleFor_PosInf_width:
  "scaleFor PosInf (Fin H) = Fin (if 0 < min 1 (H / 1123) then min 1 (H / 1123) else 1)"
  by (simp add: scaleFor_def js_div_const_def Math_min3_def Math_min_def Number_isFinite_def
      PAGE_HEIGHT_def Let_def min_def)

lemma scaleFor_PosInf_height:
  "scaleFor (Fin W) PosInf = Fin (if 0 < min 1 (W / 794) then min 1 (W / 794) else 1)"
  by (simp add: scaleFor_def js_div_const_def Math_min3_def Math_min_def Number_isFinite_def
      PAGE_WIDTH_def Let_def min_def)

lemma scaleFor_range: "\<exists>r. scaleFor W H = Fin r \<and> 0 < r \<and> r \<le> 1"
  by (cases W; cases H)
    (simp_all add: scaleFor_def js_div_const_def Math_min3_def Math_min_def
      Number_isFinite_def Let_def)

lemma updateScale_range:
  "\<exists>r. pageScale = Fin r \<and> 0 < r \<and> r \<le> 1 \<Longrightarrow>
   \<exists>r. updateScale stage pageScale = Fin r \<and> 0 < r \<and> r \<le> 1"
  by (cases stage) (simp_all add: updateScale_def Let_def scaleFor_range)

lemma pageScaleAfter_range: "\<exists>r. pageScaleAfter updates = Fin r \<and> 0 < r \<and> r \<le> 1"
proof (induction updates rule: rev_induct)
  case Nil
  show ?case by (simp add: pageScaleAfter_def)
next
  case (snoc stage updates)
  then show ?case
    using updateScale_range [of "pageScaleAfter updates" stage]
    by (simp add: pageScaleAfter_def)
qed

text \<open>
  C2, as amended. For finite available lengths \<open>W\<close> and \<open>H\<close> the scale is
  \<open>min 1 (W / 794) (H / 1123)\<close> when that is positive and 1 otherwise: 1 for
  (800, 1200), one half for (397, 1123), 1 for (0, 0). It is 1 as soon as a length is
  \<^verbatim>\<open>NaN\<close>, and when both are infinite; an infinite length beside a finite one drops out
  of the minimum. Whatever the lengths, the scale is a finite number above 0 and at most
  1, and so is the stored page scale after any run of updates from the initial 1.
\<close>

theorem scaleFor_min_or_fallback:
  "scaleFor (Fin W) (Fin H) =
     Fin (if 0 < min 1 (min (W / 794) (H / 1123)) then min 1 (min (W / 794) (H / 1123)) else 1) \<and>
   scaleFor (Fin 800) (Fin 1200) = Fin 1 \<and>
   scaleFor (Fin 397) (Fin 1123) = Fin (1 / 2) \<and>
   scaleFor (Fin 0) (Fin 0) = Fin 1 \<and>
   scaleFor NaN availableHeight = Fin 1 \<and>
   scaleFor availableWidth NaN = Fin 1 \<and>
   scaleFor PosInf PosInf = Fin 1 \<and>
   scaleFor PosInf (Fin H) = Fin (if 0 < min 1 (H / 1123) then min 1 (H / 1123) else 1) \<and>
   scaleFor (Fin W) PosInf = Fin (if 0 < min 1 (W / 794) then min 1 (W / 794) else 1) \<and>
   (\<exists>r. scaleFor availableWidth availableHeight = Fin r \<and> 0 < r \<and> r \<le> 1) \<and>
   (\<exists>r. updateScale (Some stage) pageScale = Fin r \<and> 0 < r \<and> r \<le> 1) \<and>
   (\<exists>r. pageScaleAfter updates = Fin r \<and> 0 < r \<and> r \<le> 1)"
proof (intro conjI)
  show "scaleFor (Fin W) (Fin H) =
     Fin (if 0 < min 1 (min (W / 794) (H / 1123)) then min 1 (min (W / 794) (H / 1123)) else 1)"
    by (rule scaleFor_Fin)
  show "scaleFor (Fin 800) (Fin 1200) = Fin 1"
    by (simp add: scaleFor_Fin)
  show "scaleFor (Fin 397) (Fin 1123) = Fin (1 / 2)"
    by (simp add: scaleFor_Fin)
  show "scaleFor (Fin 0) (Fin 0) = Fin 1"
    by (simp add: scaleFor_Fin)
  show "scaleFor NaN availableHeight = Fin 1" and "scaleFor availableWidth NaN = Fin 1"
    by (rule scaleFor_NaN)+
  show "scaleFor PosInf PosInf = Fin 1"
    by (simp add: scaleFor_def js_div_const_def Math_min3_def Math_min_def Number_isFinite_def)
  show "scaleFor PosInf (Fin H) = Fin (if 0 < min 1 (H / 1123) then min 1 (H / 1123) else 1)"
    by (rule scaleFor_PosInf_width)
  show "scaleFor (Fin W) PosInf = Fin (if 0 < min 1 (W / 794) then min 1 (W / 794) else 1)"
    by (rule scaleFor_PosInf_height)
  show "\<exists>r. scaleFor availableWidth availableHeight = Fin r \<and> 0 < r \<and> r \<le> 1"
    by (rule scaleFor_range)
  show "\<exists>r. updateScale (Some stage) pageScale = Fin r \<and> 0 < r \<and> r \<le> 1"
    by (simp add: updateScale_def Let_def scaleFor_range)
  show "\<exists>r. pageScaleAfter updates = Fin r \<and> 0 < r \<and> r \<le> 1"
    by (rule pageScaleAfter_range)
qed

theorem scaleFor_min_or_fallback_witness:
  "scaleFor (Fin 400) (Fin 1123) = Fin (200 / 397) \<and>
   updateScale
     (Some \<lparr>stage_clientWidth = 429, stage_clientHeight = 1155, stage_paddingLeft = Fin 16,
            stage_paddingRight = Fin 16, stage_paddingTop = Fin 16, stage_paddingBottom = Fin 16\<rparr>)
     (Fin 1) = Fin (1 / 2) \<and>
   updateScale
     (Some \<lparr>stage_clientWidth = 429, stage_clientHeight = 1155, stage_paddingLeft = NaN,
            stage_paddingRight = Fin 16, stage_paddingTop = Fin 16, stage_paddingBottom = Fin 16\<rparr>)
     (Fin (1 / 2)) = Fin 1"
  using scaleFor_min_or_fallback [of 400 1123 NaN NaN
     "\<lparr>stage_clientWidth = 429, stage_clientHeight = 1155, stage_paddingLeft = Fin 16,
            stage_paddingRight = Fin 16, stage_paddingTop = Fin 16, stage_paddingBottom = Fin 16\<rparr>"
     "Fin 1" "[]"]
  by (simp add: updateScale_def Let_def js_sub_def Math_max_def scaleFor_Fin scaleFor_NaN)

text \<open>
  An available width of \<open>+\<infinity>\<close>, as an infinite padding gives, is a non-finite input
  and the scale is not 1: the height alone decides.
\<close>

theorem scaleFor_infinite_width_counterexample:
  "scaleFor PosInf (Fin (1123 / 2)) = Fin (1 / 2) \<and>
   Fin (1 / 2) \<noteq> Fin 1 \<and>
   updateScale
     (Some \<lparr>stage_clientWidth = 800, stage_clientHeight = 600, stage_paddingLeft = NegInf,
            stage_paddingRight = Fin 0, stage_paddingTop = Fin 19,
            stage_paddingBottom = Fin (39 / 2)\<rparr>)
     (Fin 1) = Fin (1 / 2)"
  by (simp add: updateScale_def Let_def js_sub_def Math_max_def scaleFor_PosInf_width)

end
